theory Spec2Isabelle
  imports Complex_Main "HOL-Library.Sublist" "HOL-Library.Char_ord" "HOL-Library.List_Lexorder"
    "HOL-Library.Multiset" "HOL-Library.AList"
begin

section \<open>Strings\<close>

text \<open>
  A JavaScript string is modelled as a list of code units below 256.  The
  regular-expression class \<open>\s\<close> and \<open>String.prototype.trim\<close> agree on
  which code units are white space; below 256 these are tab, line feed, vertical
  tab, form feed, carriage return, space and no-break space.
\<close>

definition isSpace :: "char \<Rightarrow> bool" where
  "isSpace c = ((of_char c :: nat) \<in> {9, 10, 11, 12, 13, 32, 160})"

text \<open>\<open>s.replace(/\s+/g, ' ')\<close>: every maximal run of white space becomes one space.\<close>

function replaceSpaces :: "string \<Rightarrow> string" where
  "replaceSpaces [] = []"
| "replaceSpaces (c # cs) =
     (if isSpace c then CHR '' '' # replaceSpaces (dropWhile isSpace cs)
      else c # replaceSpaces cs)"
  by pat_completeness auto
termination
  by (relation "measure length") (auto simp: length_dropWhile_le less_Suc_eq_le)

text \<open>\<open>s.trim()\<close>\<close>

definition trim :: "string \<Rightarrow> string" where
  "trim s = rev (dropWhile isSpace (rev (dropWhile isSpace s)))"

text \<open>\<open>s.split(sep)\<close> for a separator of one code unit; the empty string gives \<open>['']\<close>.\<close>

fun split_str :: "char \<Rightarrow> string \<Rightarrow> string list" where
  "split_str sep [] = [[]]"
| "split_str sep (c # cs) =
     (if c = sep then [] # split_str sep cs
      else (case split_str sep cs of t # ts \<Rightarrow> (c # t) # ts | [] \<Rightarrow> [[c]]))"

text \<open>\<open>xs.join(sep)\<close>\<close>

fun join_str :: "string \<Rightarrow> string list \<Rightarrow> string" where
  "join_str sep [] = []"
| "join_str sep [x] = x"
| "join_str sep (x # y # ys) = x @ sep @ join_str sep (y # ys)"

text \<open>\<open>s.includes(k)\<close> on strings and \<open>s.startsWith(p)\<close>\<close>

definition includes_str :: "string \<Rightarrow> string \<Rightarrow> bool" where
  "includes_str s k = sublist k s"

definition startsWith :: "string \<Rightarrow> string \<Rightarrow> bool" where
  "startsWith s p = prefix p s"

text \<open>\<open>classNames.replace(/\s+/g, ' ').trim().split(' ')\<close>, at line 101 and at lines 150 to 153.\<close>

definition splitClassNames :: "string \<Rightarrow> string list" where
  "splitClassNames classNames = split_str CHR '' '' (trim (replaceSpaces classNames))"

section \<open>Ordering and breakpoint filtering (lines 93 to 133)\<close>

definition maxWidthKeys :: "string list" where
  "maxWidthKeys = [''sm:'', ''md:'', ''lg:'', ''xl:'']"

definition maxWidthValues :: "rat list" where
  "maxWidthValues = [640, 768, 1024, 1280]"

text \<open>
  The parameter \<open>windowWidth\<close> defaults to \<open>null\<close>, modelled as \<open>None\<close>;
  \<open>Some r\<close> is the finite number \<open>r\<close>.  A width is falsy when it is \<open>null\<close>
  or zero, and \<open>null\<close> compares as the number zero.
\<close>

definition truthy :: "rat option \<Rightarrow> bool" where
  "truthy w = (case w of None \<Rightarrow> False | Some r \<Rightarrow> r \<noteq> 0)"

definition toNumber :: "rat option \<Rightarrow> rat" where
  "toNumber w = (case w of None \<Rightarrow> 0 | Some r \<Rightarrow> r)"

definition haveMaxWidthKeys :: "string \<Rightarrow> bool" where
  "haveMaxWidthKeys classNames = list_ex (\<lambda>k. includes_str classNames k) maxWidthKeys"

text \<open>The loop of \<open>putLeadingToTheBack\<close>, with its two arrays as accumulators.\<close>

fun putLeadingLoop :: "string \<Rightarrow> string list \<Rightarrow> string list \<Rightarrow> string list
    \<Rightarrow> string list \<times> string list" where
  "putLeadingLoop maxWidthKey [] leadingNames otherNames = (leadingNames, otherNames)"
| "putLeadingLoop maxWidthKey (name # names) leadingNames otherNames =
     (if startsWith name (maxWidthKey @ ''leading-'')
      then putLeadingLoop maxWidthKey names (leadingNames @ [name]) otherNames
      else putLeadingLoop maxWidthKey names leadingNames (otherNames @ [name]))"

definition putLeadingToTheBack :: "string list \<Rightarrow> string \<Rightarrow> string list" where
  "putLeadingToTheBack classNames maxWidthKey =
     (case putLeadingLoop maxWidthKey classNames [] [] of
        (leadingNames, otherNames) \<Rightarrow> otherNames @ leadingNames)"

text \<open>
  Lines 105 to 116.  \<open>Array.prototype.sort\<close> without a comparator orders strings
  by their code units, which is the lexicographic order of \<open>string\<close>.
\<close>

definition sortClassNames :: "string list \<Rightarrow> string list" where
  "sortClassNames classNames =
     (let c1 = sort (filter (\<lambda>c. take 3 c \<notin> set maxWidthKeys) classNames);
          c2 = sort (filter (\<lambda>c. take 3 c = maxWidthKeys ! 0) classNames);
          c3 = sort (filter (\<lambda>c. take 3 c = maxWidthKeys ! 1) classNames);
          c4 = sort (filter (\<lambda>c. take 3 c = maxWidthKeys ! 2) classNames);
          c5 = sort (filter (\<lambda>c. take 3 c = maxWidthKeys ! 3) classNames)
      in putLeadingToTheBack c1 []
         @ putLeadingToTheBack c2 (maxWidthKeys ! 0)
         @ putLeadingToTheBack c3 (maxWidthKeys ! 1)
         @ putLeadingToTheBack c4 (maxWidthKeys ! 2)
         @ putLeadingToTheBack c5 (maxWidthKeys ! 3))"

text \<open>Line 120: the number of thresholds the width reaches.\<close>

definition activeCount :: "rat option \<Rightarrow> nat" where
  "activeCount windowWidth =
     foldl (+) 0 (map (\<lambda>maxWidth. if toNumber windowWidth \<ge> maxWidth then 1 else 0) maxWidthValues)"

text \<open>Lines 119 to 130.\<close>

definition filterByWidth :: "rat option \<Rightarrow> string list \<Rightarrow> string list" where
  "filterByWidth windowWidth classNames =
     (let i = activeCount windowWidth;
          kept = filter (\<lambda>className. let pre = take 3 className in
                    pre \<notin> set maxWidthKeys \<or> pre \<in> set (take i maxWidthKeys)) classNames
      in map (\<lambda>className. let pre = take 3 className in
                if pre \<in> set maxWidthKeys then drop 3 className else className) kept)"

text \<open>Lines 101 to 133: the token list that is joined, and the joined string.\<close>

definition finalClassNames :: "string \<Rightarrow> rat option \<Rightarrow> string list" where
  "finalClassNames classNames windowWidth =
     (let sorted = sortClassNames (splitClassNames classNames)
      in if haveMaxWidthKeys classNames then filterByWidth windowWidth sorted else sorted)"

definition cacheKey :: "string \<Rightarrow> rat option \<Rightarrow> string" where
  "cacheKey classNames windowWidth = join_str '' '' (finalClassNames classNames windowWidth)"

section \<open>Values and objects\<close>

text \<open>
  Values of the lookup table and of style objects.  The numbers are a type
  parameter: arithmetic on doubles is not modelled, and the operations whose
  result the engine defines (three on numbers, and the text of a built-in
  function) are passed in a record.  An object is the list of its own enumerable
  properties in insertion order.  Property names are taken to be names of style
  properties: a name that is an array index, which an object enumerates before
  its other names, and the name \<open>__proto__\<close>, which an assignment takes for
  the accessor of \<open>Object.prototype\<close>, are outside the model.
\<close>

text \<open>
  The style accumulator, the cache and the lookup table are ordinary objects, so
  \<open>name in object\<close> and \<open>object[name]\<close> also find the members that they inherit
  from \<open>Object.prototype\<close> when the object has no property of its own under that
  name.  These are the inherited names.  Each of them is a function, except
  \<open>__proto__\<close>, which reads as \<open>Object.prototype\<close> itself; none of them has an
  enumerable property of its own.
\<close>

definition inheritedNames :: "string list" where
  "inheritedNames =
     [''constructor'', ''__defineGetter__'', ''__defineSetter__'', ''hasOwnProperty'',
      ''__lookupGetter__'', ''__lookupSetter__'', ''isPrototypeOf'', ''propertyIsEnumerable'',
      ''toString'', ''valueOf'', ''__proto__'', ''toLocaleString'']"

text \<open>\<open>VNative name\<close> is the member of \<open>Object.prototype\<close> of that name.\<close>

datatype 'n jsval =
    VUndefined
  | VNull
  | VBool bool
  | VNum 'n
  | VStr string
  | VArr "'n jsval list"
  | VObj "(string \<times> 'n jsval) list"
  | VNative string

type_synonym 'n object = "(string \<times> 'n jsval) list"

record 'n numops =
  parseFloat :: "'n jsval \<Rightarrow> 'n"
  multiply :: "'n \<Rightarrow> 'n jsval \<Rightarrow> 'n"
  numToString :: "'n \<Rightarrow> string"
  nativeToString :: "string \<Rightarrow> string"

text \<open>Conversion of a value to a string, as \<open>String.prototype.replace\<close> applies it
  to what the replacement function returns.\<close>

fun toString :: "'n numops \<Rightarrow> 'n jsval \<Rightarrow> string" where
  "toString ops VUndefined = ''undefined''"
| "toString ops VNull = ''null''"
| "toString ops (VBool b) = (if b then ''true'' else ''false'')"
| "toString ops (VNum n) = numToString ops n"
| "toString ops (VStr s) = s"
| "toString ops (VArr xs) =
     join_str '','' (map (\<lambda>x. if x = VUndefined \<or> x = VNull then [] else toString ops x) xs)"
| "toString ops (VObj ps) = ''[object Object]''"
| "toString ops (VNative name) =
     (if name = ''__proto__'' then ''[object Object]'' else nativeToString ops name)"

text \<open>\<open>object[name]\<close>, through the prototype chain, and
  \<open>Object.assign(target, source)\<close>\<close>

definition getProp :: "'n object \<Rightarrow> string \<Rightarrow> 'n jsval" where
  "getProp object name =
     (case map_of object name of
        Some v \<Rightarrow> v
      | None \<Rightarrow> if name \<in> set inheritedNames then VNative name else VUndefined)"

definition assign :: "'n object \<Rightarrow> 'n object \<Rightarrow> 'n object" where
  "assign target source = fold (\<lambda>(k, v). AList.update k v) source target"

section \<open>\<open>useVariables\<close>\<close>

definition isVarChar :: "char \<Rightarrow> bool" where
  "isVarChar c = ((CHR ''a'' \<le> c \<and> c \<le> CHR ''z'') \<or> (CHR ''A'' \<le> c \<and> c \<le> CHR ''Z'') \<or> c = CHR ''-'')"

text \<open>The leftmost match of \<open>/var\(([a-zA-Z-]+)\)/\<close>: its index and its group.\<close>

fun execVar :: "string \<Rightarrow> (nat \<times> string) option" where
  "execVar [] = None"
| "execVar (c # cs) =
     (let name = takeWhile isVarChar (drop 4 (c # cs)) in
      if prefix ''var('' (c # cs) \<and> name \<noteq> [] \<and> prefix '')'' (drop (4 + length name) (c # cs))
      then Some (0, name)
      else map_option (\<lambda>(i, n). (Suc i, n)) (execVar cs))"

text \<open>Lines 12 to 14: the first match is replaced by \<open>object[name]\<close> as a string.\<close>

definition replaceVar :: "'n numops \<Rightarrow> 'n object \<Rightarrow> string \<Rightarrow> string" where
  "replaceVar ops object v =
     (case execVar v of
        None \<Rightarrow> v
      | Some (i, name) \<Rightarrow>
          take i v @ toString ops (getProp object name) @ drop (i + length name + 5) v)"

text \<open>Lines 11 to 17: the value that is stored for a property that is kept.\<close>

definition substituted :: "'n numops \<Rightarrow> 'n object \<Rightarrow> 'n jsval \<Rightarrow> 'n jsval" where
  "substituted ops object v = (case v of VStr s \<Rightarrow> VStr (replaceVar ops object s) | _ \<Rightarrow> v)"

text \<open>The loop of lines 9 to 19 over \<open>Object.entries(object)\<close>.\<close>

fun useVariablesLoop :: "'n numops \<Rightarrow> 'n object \<Rightarrow> 'n object \<Rightarrow> 'n object \<Rightarrow> 'n object" where
  "useVariablesLoop ops object [] newObject = newObject"
| "useVariablesLoop ops object ((key, v) # entries) newObject =
     useVariablesLoop ops object entries
       (if \<not> startsWith key ''--''
        then AList.update key (substituted ops object v) newObject
        else newObject)"

definition useVariables :: "'n numops \<Rightarrow> 'n object \<Rightarrow> 'n object" where
  "useVariables ops object = useVariablesLoop ops object object []"

section \<open>Font variants and letter spacing\<close>

definition fontVariantKeywords :: "string list" where
  "fontVariantKeywords = [''oldstyle-nums'', ''lining-nums'', ''tabular-nums'', ''proportional-nums'']"

text \<open>
  Modelled from the spec: the package \<open>match-all\<close> is not among the sources.  It is
  the capability to find all non-overlapping matches of a pattern in a string from
  left to right; the pattern here is \<open>FONT_VARIANT_REGEX\<close>, an alternation of four
  literal keywords, tried in the order written at each position.
\<close>

fun matchAll :: "string \<Rightarrow> string list" where
  "matchAll [] = []"
| "matchAll (c # cs) =
     (case find (\<lambda>k. prefix k (c # cs)) fontVariantKeywords of
        Some k \<Rightarrow> k # matchAll (drop (length k - 1) cs)
      | None \<Rightarrow> matchAll cs)"

definition addFontVariant :: "'n object \<Rightarrow> string \<Rightarrow> 'n object" where
  "addFontVariant style classNames =
     (let matches = matchAll classNames in
      if length matches > 0 then AList.update ''fontVariant'' (VArr (map VStr matches)) style
      else style)"

definition fontSizes :: "string list" where
  "fontSizes = [''xs'', ''sm'', ''base'', ''lg'', ''xl'', ''2xl'', ''3xl'', ''4xl'', ''5xl'', ''6xl'']"

text \<open>\<open>FONT_SIZE_REGEX.exec(s)\<close>: element 0 of the leftmost match, if any.\<close>

fun execFontSize :: "string \<Rightarrow> string option" where
  "execFontSize [] = None"
| "execFontSize (c # cs) =
     (case find (\<lambda>a. prefix (''text-'' @ a) (c # cs)) fontSizes of
        Some a \<Rightarrow> Some (''text-'' @ a)
      | None \<Rightarrow> execFontSize cs)"

definition isLower :: "char \<Rightarrow> bool" where
  "isLower c = (CHR ''a'' \<le> c \<and> c \<le> CHR ''z'')"

text \<open>\<open>LETTER_SPACING_REGEX.exec(s)\<close>: element 0 of the leftmost match, if any.\<close>

fun execLetterSpacing :: "string \<Rightarrow> string option" where
  "execLetterSpacing [] = None"
| "execLetterSpacing (c # cs) =
     (let letters = takeWhile isLower (drop 9 (c # cs)) in
      if prefix ''tracking-'' (c # cs) \<and> letters \<noteq> [] then Some (''tracking-'' @ letters)
      else execLetterSpacing cs)"

text \<open>
  The two thrown \<open>Error\<close>s of the source, and the \<open>TypeError\<close> that destructuring
  \<open>undefined\<close> raises at lines 57 and 59.
\<close>

datatype error = WithoutWindowWidth | FontSizeRequired | TypeError

type_synonym 'n styles = "string \<Rightarrow> 'n object option"

text \<open>
  \<open>tailwindStyles[className]\<close>.  The table gives the fragments that the lookup
  table owns.  Under an inherited name that the table does not own, the lookup
  finds the member of \<open>Object.prototype\<close>: a value that is truthy and has no
  enumerable property of its own, as the empty fragment.
\<close>

definition lookupClass :: "'n styles \<Rightarrow> string \<Rightarrow> 'n object option" where
  "lookupClass tailwindStyles className =
     (case tailwindStyles className of
        Some fragment \<Rightarrow> Some fragment
      | None \<Rightarrow> if className \<in> set inheritedNames then Some [] else None)"

definition addLetterSpacing :: "'n numops \<Rightarrow> 'n styles \<Rightarrow> 'n object \<Rightarrow> string \<Rightarrow> error + 'n object" where
  "addLetterSpacing ops tailwindStyles style classNames =
     (case execLetterSpacing classNames of
        None \<Rightarrow> Inr style
      | Some letterSpacingClass \<Rightarrow>
         (case execFontSize classNames of
            None \<Rightarrow> Inl FontSizeRequired
          | Some fontSizeClass \<Rightarrow>
             (case lookupClass tailwindStyles letterSpacingClass of
                None \<Rightarrow> Inl TypeError
              | Some letterSpacingStyle \<Rightarrow>
                 (case lookupClass tailwindStyles fontSizeClass of
                    None \<Rightarrow> Inl TypeError
                  | Some fontSizeStyle \<Rightarrow>
                      Inr (AList.update ''letterSpacing''
                            (VNum (multiply ops
                               (parseFloat ops (getProp letterSpacingStyle ''letterSpacing''))
                               (getProp fontSizeStyle ''fontSize'')))
                            style)))))"

section \<open>The merge and the cache (lines 133 to 166)\<close>

definition separateClassNames :: "string \<Rightarrow> string list" where
  "separateClassNames classNames =
     filter (\<lambda>className. className \<notin> set fontVariantKeywords)
       (filter (\<lambda>className. \<not> startsWith className ''tracking-'')
          (splitClassNames classNames))"

definition warning :: "string \<Rightarrow> string \<Rightarrow> string" where
  "warning className classNames =
     ''Unsupported Tailwind class: '' @ [CHR 0x22] @ className @ [CHR 0x22]
       @ '' from classNames '' @ classNames"

text \<open>Lines 157 to 163; the second component collects the calls of \<open>console.warn\<close>.\<close>

fun mergeLoop :: "'n styles \<Rightarrow> string \<Rightarrow> string list \<Rightarrow> 'n object \<times> string list
    \<Rightarrow> 'n object \<times> string list" where
  "mergeLoop tailwindStyles classNames [] acc = acc"
| "mergeLoop tailwindStyles classNames (className # rest) (style, warned) =
     mergeLoop tailwindStyles classNames rest
       (case lookupClass tailwindStyles className of
          Some fragment \<Rightarrow> (assign style fragment, warned)
        | None \<Rightarrow> (style, warned @ [warning className classNames]))"

text \<open>Lines 143 to 163: the style accumulator before \<open>useVariables\<close>, and the
  warnings.\<close>

definition mergedStyle :: "'n numops \<Rightarrow> 'n styles \<Rightarrow> string \<Rightarrow> error + ('n object \<times> string list)" where
  "mergedStyle ops tailwindStyles classNames =
     (case addLetterSpacing ops tailwindStyles (addFontVariant [] classNames) classNames of
        Inl e \<Rightarrow> Inl e
      | Inr style \<Rightarrow>
          Inr (mergeLoop tailwindStyles classNames (separateClassNames classNames) (style, [])))"

text \<open>Lines 143 to 165, for a key that is not in the cache.\<close>

definition computeStyle :: "'n numops \<Rightarrow> 'n styles \<Rightarrow> string \<Rightarrow> error + ('n object \<times> string list)" where
  "computeStyle ops tailwindStyles classNames =
     (case mergedStyle ops tailwindStyles classNames of
        Inl e \<Rightarrow> Inl e
      | Inr (merged, warned) \<Rightarrow> Inr (useVariables ops merged, warned))"

text \<open>
  The closure state of one \<open>create\<close>: the cache maps a key of its own to a
  reference into the heap, and the warnings are the lines written so far.  The
  heap holds the objects that a call can return, each by its own enumerable
  properties: at 0 the object of the empty key, then the members of
  \<open>Object.prototype\<close>, which exist before the closure does, then the objects
  that the calls cache.  \<open>create\<close> is the state in which the closure starts.
\<close>

record 'n state =
  cache :: "string \<rightharpoonup> nat"
  heap :: "'n object list"
  warnings :: "string list"

definition create :: "'n state" where
  "create = \<lparr>cache = [[] \<mapsto> 0], heap = [] # map (\<lambda>name. []) inheritedNames, warnings = []\<rparr>"

text \<open>\<open>xs.indexOf(x)\<close>, \<open>None\<close> for -1.\<close>

fun indexOf :: "'a \<Rightarrow> 'a list \<Rightarrow> nat option" where
  "indexOf x [] = None"
| "indexOf x (y # ys) = (if x = y then Some 0 else map_option Suc (indexOf x ys))"

text \<open>
  \<open>cache[key]\<close>, through the prototype chain: the reference under a key of the
  cache's own, the reference of the inherited member under an inherited name,
  \<open>None\<close> for \<open>undefined\<close>.
\<close>

definition nativeRef :: "string \<Rightarrow> nat option" where
  "nativeRef key = map_option Suc (indexOf key inheritedNames)"

definition cacheGet :: "'n state \<Rightarrow> string \<Rightarrow> nat option" where
  "cacheGet st key = (case cache st key of Some r \<Rightarrow> Some r | None \<Rightarrow> nativeRef key)"

text \<open>
  \<open>tailwind(classNames, windowWidth)\<close>.  The result is the reference that
  \<open>cache[key]\<close> gives or the error thrown.  \<open>key in cache\<close> holds of the keys
  that the cache owns and of the inherited names; the empty key is not an
  inherited name, so \<open>cache['']\<close> is the cache's own entry.
\<close>

definition tailwind :: "'n numops \<Rightarrow> 'n styles \<Rightarrow> 'n state \<Rightarrow> string \<Rightarrow> rat option
    \<Rightarrow> (error + nat option) \<times> 'n state" where
  "tailwind ops tailwindStyles st classNames windowWidth =
     (if classNames = [] then (Inr (cache st []), st)
      else if haveMaxWidthKeys classNames \<and> \<not> truthy windowWidth then (Inl WithoutWindowWidth, st)
      else
        (let key = cacheKey classNames windowWidth in
         if key = [] then (Inr (cache st []), st)
         else if cache st key \<noteq> None \<or> key \<in> set inheritedNames then (Inr (cacheGet st key), st)
         else
           (case computeStyle ops tailwindStyles key of
              Inl e \<Rightarrow> (Inl e, st)
            | Inr (newObject, warned) \<Rightarrow>
                (Inr (Some (length (heap st))),
                 st\<lparr>cache := (cache st)(key \<mapsto> length (heap st)),
                    heap := heap st @ [newObject],
                    warnings := warnings st @ warned\<rparr>))))"

text \<open>The states a closure can be in: after any sequence of calls.\<close>

inductive reachable :: "'n numops \<Rightarrow> 'n styles \<Rightarrow> 'n state \<Rightarrow> bool"
  for ops :: "'n numops" and tailwindStyles :: "'n styles" where
  reachable_create: "reachable ops tailwindStyles create"
| reachable_call: "reachable ops tailwindStyles st \<Longrightarrow>
     tailwind ops tailwindStyles st classNames windowWidth = (res, st') \<Longrightarrow>
     reachable ops tailwindStyles st'"

section \<open>A lookup table and number operations for examples\<close>

text \<open>
  The table \<open>styles.json\<close> is not among the sources, and the theorems hold for
  every table and for every choice of the number operations.  The examples use a
  few entries in the shape of that table, and keep a number as the text of the
  expression that computes it, so that no rounding is asserted.
\<close>

definition numText :: "string jsval \<Rightarrow> string" where
  "numText v = (case v of VNum n \<Rightarrow> n | VStr s \<Rightarrow> s | _ \<Rightarrow> ''undefined'')"

definition exampleOps :: "string numops" where
  "exampleOps =
     \<lparr>parseFloat = (\<lambda>v. ''parseFloat('' @ numText v @ '')''),
      multiply = (\<lambda>a v. a @ '' * '' @ numText v),
      numToString = (\<lambda>n. n),
      nativeToString = (\<lambda>name. ''function '' @ (if name = ''constructor'' then ''Object'' else name)
         @ ''() { [native code] }'')\<rparr>"

definition exampleStyles :: "string styles" where
  "exampleStyles = map_of
     [(''text-lg'', [(''fontSize'', VNum ''18''), (''lineHeight'', VNum ''28'')]),
      (''text-sm'', [(''fontSize'', VNum ''14''), (''lineHeight'', VNum ''20'')]),
      (''leading-6'', [(''lineHeight'', VNum ''24'')]),
      (''tracking-tighter'', [(''letterSpacing'', VStr ''-0.05em'')]),
      (''tracking-wide'', [(''letterSpacing'', VStr ''0.025em'')]),
      (''bg-red-500'', [(''--bg-opacity'', VNum ''1''),
         (''backgroundColor'', VStr ''rgba(245, 101, 101, var(--bg-opacity))'')]),
      (''bg-blue-500'', [(''--bg-opacity'', VNum ''1''),
         (''backgroundColor'', VStr ''rgba(66, 153, 225, var(--bg-opacity))'')]),
      (''p-1'', [(''padding'', VNum ''4'')]),
      (''p-2'', [(''padding'', VNum ''8'')])]"

section \<open>The breakpoint tiers as the specification words them\<close>

text \<open>
  The specification speaks of four tiers, each a tag with a minimum width, of the
  number of active tiers at a width, and of the tier index of a token.  These
  definitions follow its words; the theorems below compare them with the code.
\<close>

definition spec_tiers :: "(string \<times> rat) list" where
  "spec_tiers = [(''sm:'', 640), (''md:'', 768), (''lg:'', 1024), (''xl:'', 1280)]"


definition spec_tierIndex :: "string \<Rightarrow> nat option" where
  "spec_tierIndex token = indexOf (take 3 token) (map fst spec_tiers)"


definition spec_strip :: "string \<Rightarrow> string" where
  "spec_strip token = (case spec_tierIndex token of None \<Rightarrow> token | Some i \<Rightarrow> drop 3 token)"

text \<open>
  The buckets of the ordering: the tokens of one tier, sorted; a token is of the
  form \<open>leading-*\<close> when it starts so once its tag is stripped; and a bucket
  with its \<open>leading-*\<close> tokens placed after the others.
\<close>

definition spec_isLeading :: "string \<Rightarrow> bool" where
  "spec_isLeading token = startsWith (spec_strip token) ''leading-''"

definition spec_bucket :: "string list \<Rightarrow> nat option \<Rightarrow> string list" where
  "spec_bucket tokens tier = sort (filter (\<lambda>token. spec_tierIndex token = tier) tokens)"

definition spec_leadingLast :: "string list \<Rightarrow> string list" where
  "spec_leadingLast bucket =
     filter (\<lambda>token. \<not> spec_isLeading token) bucket @ filter spec_isLeading bucket"

text \<open>
  A placeholder \<open>var(name)\<close> at index \<open>i\<close> of a string: the name is a
  non-empty run of letters and hyphens.
\<close>

definition spec_placeholderAt :: "string \<Rightarrow> nat \<Rightarrow> string \<Rightarrow> bool" where
  "spec_placeholderAt s i name =
     (name \<noteq> [] \<and> list_all isVarChar name
      \<and> take (length name + 5) (drop i s) = ''var('' @ name @ '')'')"

section \<open>Facts about tokens and substrings\<close>

lemma split_str_nonempty: "split_str sep s \<noteq> []"
  by (induction s) (auto split: list.splits)

lemma hd_split_str: "hd (split_str sep s) = takeWhile (\<lambda>c. c \<noteq> sep) s"
  by (induction s) (auto split: list.splits simp: split_str_nonempty)

lemma prefix_takeWhile_free:
  "\<forall>c\<in>set k. P c \<Longrightarrow> prefix k (takeWhile P s) = prefix k s"
proof (induction k arbitrary: s)
  case Nil
  then show ?case by simp
next
  case (Cons a k)
  then show ?case by (cases s) auto
qed

lemma sublist_split_str:
  assumes "k \<noteq> []" and "sep \<notin> set k"
  shows "sublist k s = (\<exists>t\<in>set (split_str sep s). sublist k t)"
proof (induction s)
  case Nil
  then show ?case by simp
next
  case (Cons c cs)
  show ?case
  proof (cases "c = sep")
    case True
    with assms have "\<not> prefix k (c # cs)" by (cases k) auto
    with True Cons assms(1) show ?thesis by (simp add: sublist_Cons_right)
  next
    case False
    obtain t ts where sp: "split_str sep cs = t # ts"
      using split_str_nonempty [of sep cs] by (cases "split_str sep cs") auto
    have t: "t = takeWhile (\<lambda>c. c \<noteq> sep) cs"
      using hd_split_str [of sep cs] sp by simp
    have "prefix k (c # t) = prefix k (c # cs)"
    proof (cases k)
      case Nil
      then show ?thesis by simp
    next
      case (Cons a k')
      with assms(2) have "\<forall>c\<in>set k'. c \<noteq> sep" by auto
      from prefix_takeWhile_free [OF this, of cs] Cons t show ?thesis by simp
    qed
    with False sp Cons show ?thesis by (auto simp: sublist_Cons_right)
  qed
qed

lemma prefix_replaceSpaces:
  "\<forall>c\<in>set k. \<not> isSpace c \<Longrightarrow> prefix k (replaceSpaces s) = prefix k s"
proof (induction s arbitrary: k rule: replaceSpaces.induct)
  case 1
  then show ?case by simp
next
  case (2 c cs)
  show ?case
  proof (cases k)
    case Nil
    then show ?thesis by simp
  next
    case (Cons a k')
    with 2 show ?thesis by (auto simp: isSpace_def)
  qed
qed

lemma sublist_dropWhile_free:
  assumes "k \<noteq> []" and "\<forall>c\<in>set k. \<not> P c"
  shows "sublist k (dropWhile P s) = sublist k s"
proof (induction s)
  case Nil
  then show ?case by simp
next
  case (Cons c cs)
  from assms have "P c \<Longrightarrow> \<not> prefix k (c # cs)" by (cases k) auto
  with Cons show ?case by (auto simp: sublist_Cons_right)
qed

lemma sublist_replaceSpaces:
  assumes "k \<noteq> []" and "\<forall>c\<in>set k. \<not> isSpace c"
  shows "sublist k (replaceSpaces s) = sublist k s"
proof (induction s rule: replaceSpaces.induct)
  case 1
  then show ?case by simp
next
  case (2 c cs)
  show ?case
  proof (cases "isSpace c")
    case True
    from assms have np: "\<not> prefix k (c # cs)" "\<not> prefix k (CHR '' '' # replaceSpaces (dropWhile isSpace cs))"
      using True by (cases k; auto simp: isSpace_def)+
    from True 2 np show ?thesis
      by (simp add: sublist_Cons_right sublist_dropWhile_free [OF assms])
  next
    case False
    have "prefix k (c # replaceSpaces cs) = prefix k (c # cs)"
      using prefix_replaceSpaces [OF assms(2), of "c # cs"] False by simp
    with False 2 show ?thesis by (simp add: sublist_Cons_right)
  qed
qed

lemma sublist_trim:
  assumes "k \<noteq> []" and "\<forall>c\<in>set k. \<not> isSpace c"
  shows "sublist k (trim s) = sublist k s"
proof -
  have r: "rev k \<noteq> []" "\<forall>c\<in>set (rev k). \<not> isSpace c" using assms by auto
  have "sublist k (trim s) = sublist (rev k) (dropWhile isSpace (rev (dropWhile isSpace s)))"
    by (simp add: trim_def sublist_rev_right)
  also have "\<dots> = sublist (rev k) (rev (dropWhile isSpace s))"
    by (rule sublist_dropWhile_free [OF r])
  also have "\<dots> = sublist k (dropWhile isSpace s)" by (simp add: sublist_rev_left)
  also have "\<dots> = sublist k s" by (rule sublist_dropWhile_free [OF assms])
  finally show ?thesis .
qed


lemma includes_splitClassNames:
  assumes "k \<noteq> []" and "\<forall>c\<in>set k. \<not> isSpace c"
  shows "includes_str s k = (\<exists>t\<in>set (splitClassNames s). includes_str t k)"
proof -
  have "CHR '' '' \<notin> set k" using assms(2) by (auto simp: isSpace_def)
  from sublist_split_str [OF assms(1) this, of "trim (replaceSpaces s)"]
  show ?thesis
    by (simp add: includes_str_def splitClassNames_def sublist_trim [OF assms] sublist_replaceSpaces [OF assms])
qed

section \<open>Facts about the ordering and the filter\<close>

lemma putLeadingLoop_filter:
  "putLeadingLoop key names ls os =
     (ls @ filter (\<lambda>n. startsWith n (key @ ''leading-'')) names,
      os @ filter (\<lambda>n. \<not> startsWith n (key @ ''leading-'')) names)"
  by (induction names arbitrary: ls os) auto

lemma putLeadingToTheBack_filter:
  "putLeadingToTheBack names key =
     filter (\<lambda>n. \<not> startsWith n (key @ ''leading-'')) names
     @ filter (\<lambda>n. startsWith n (key @ ''leading-'')) names"
  by (simp add: putLeadingToTheBack_def putLeadingLoop_filter)



lemma indexOf_None: "indexOf x xs = None \<longleftrightarrow> x \<notin> set xs"
  by (induction xs) auto



lemma keys_spec: "maxWidthKeys = map fst spec_tiers"
  by (simp add: maxWidthKeys_def spec_tiers_def)

lemma indexOf_Some_mem: "indexOf x xs = Some j \<Longrightarrow> x \<in> set xs"
  using indexOf_None [of x xs] by auto






section \<open>Facts about the cache\<close>

lemma sort_mset_cong:
  fixes xs ys :: "string list"
  assumes "mset xs = mset ys"
  shows "sort xs = sort ys"
  by (rule properties_for_sort) (simp_all add: assms)

lemma sortClassNames_mset_cong:
  assumes "mset xs = mset ys"
  shows "sortClassNames xs = sortClassNames ys"
proof -
  have "sort (filter P xs) = sort (filter P ys)" for P :: "string \<Rightarrow> bool"
    by (rule sort_mset_cong) (simp add: assms)
  then show ?thesis by (simp add: sortClassNames_def)
qed

lemma haveMaxWidthKeys_tokens:
  "haveMaxWidthKeys s = (\<exists>k\<in>set maxWidthKeys. \<exists>t\<in>set (splitClassNames s). includes_str t k)"
proof -
  have "includes_str s k = (\<exists>t\<in>set (splitClassNames s). includes_str t k)"
    if "k \<in> set maxWidthKeys" for k
  proof (rule includes_splitClassNames)
    from that show "k \<noteq> []" by (auto simp: maxWidthKeys_def)
    from that show "\<forall>c\<in>set k. \<not> isSpace c" by (auto simp: maxWidthKeys_def isSpace_def)
  qed
  then show ?thesis by (auto simp: haveMaxWidthKeys_def list_ex_iff)
qed

lemma have_mset_cong:
  assumes "mset (splitClassNames s1) = mset (splitClassNames s2)"
  shows "haveMaxWidthKeys s1 = haveMaxWidthKeys s2"
  using mset_eq_setD [OF assms] by (simp add: haveMaxWidthKeys_tokens)

lemma cacheKey_mset_cong:
  assumes "mset (splitClassNames s1) = mset (splitClassNames s2)"
  shows "cacheKey s1 w = cacheKey s2 w"
  using sortClassNames_mset_cong [OF assms] have_mset_cong [OF assms]
  by (simp add: cacheKey_def finalClassNames_def)

lemma cacheKey_Nil: "cacheKey [] w = []"
  by code_simp

lemma have_Nil: "\<not> haveMaxWidthKeys []"
  by code_simp

lemma indexOf_less: "indexOf x xs = Some i \<Longrightarrow> i < length xs"
  by (induction xs arbitrary: i) (auto split: if_splits)

lemma nativeRef_None: "nativeRef k = None \<longleftrightarrow> k \<notin> set inheritedNames"
  by (simp add: nativeRef_def indexOf_None)

lemma nativeRef_Some:
  assumes "nativeRef k = Some r"
  shows "k \<in> set inheritedNames" and "0 < r" and "r \<le> length inheritedNames"
proof -
  from assms obtain i where i: "indexOf k inheritedNames = Some i" and r: "r = Suc i"
    by (auto simp: nativeRef_def)
  from i show "k \<in> set inheritedNames" by (rule indexOf_Some_mem)
  from r show "0 < r" by simp
  from indexOf_less [OF i] r show "r \<le> length inheritedNames" by simp
qed

lemma inherited_no_space:
  assumes "k \<in> set inheritedNames"
  shows "k \<noteq> []" and "CHR '' '' \<notin> set k"
  using assms by (auto simp: inheritedNames_def)

lemma inherited_no_match:
  assumes "k \<in> set inheritedNames"
  shows "matchAll k = []" and "execLetterSpacing k = None"
proof -
  have "list_all (\<lambda>k. matchAll k = [] \<and> execLetterSpacing k = None) inheritedNames"
    by code_simp
  with assms show "matchAll k = []" and "execLetterSpacing k = None"
    by (simp_all add: list_all_iff)
qed

lemma lookupClass_own: "ts c = Some f \<Longrightarrow> lookupClass ts c = Some f"
  by (simp add: lookupClass_def)

lemma lookupClass_Some: "lookupClass ts c = Some f \<Longrightarrow> ts c = Some f \<or> f = []"
  by (auto simp: lookupClass_def split: option.splits if_splits)

lemma lookupClass_plain: "c \<notin> set inheritedNames \<Longrightarrow> lookupClass ts c = ts c"
  by (simp add: lookupClass_def split: option.splits)

text \<open>The early return of line 88 agrees with the later one of line 135.\<close>

lemma tailwind_unguarded:
  "tailwind ops tailwindStyles st classNames windowWidth =
     (if haveMaxWidthKeys classNames \<and> \<not> truthy windowWidth then (Inl WithoutWindowWidth, st)
      else
        (let key = cacheKey classNames windowWidth in
         if key = [] then (Inr (cache st []), st)
         else if cache st key \<noteq> None \<or> key \<in> set inheritedNames then (Inr (cacheGet st key), st)
         else
           (case computeStyle ops tailwindStyles key of
              Inl e \<Rightarrow> (Inl e, st)
            | Inr (newObject, warned) \<Rightarrow>
                (Inr (Some (length (heap st))),
                 st\<lparr>cache := (cache st)(key \<mapsto> length (heap st)),
                    heap := heap st @ [newObject],
                    warnings := warnings st @ warned\<rparr>))))"
  by (cases "classNames = []") (simp_all add: tailwind_def cacheKey_Nil have_Nil)

lemma tailwind_again:
  assumes "tailwind ops tailwindStyles st s1 w = (Inr r, st1)"
    and "haveMaxWidthKeys s2 = haveMaxWidthKeys s1"
    and "cacheKey s2 w = cacheKey s1 w"
  shows "tailwind ops tailwindStyles st1 s2 w = (Inr r, st1)"
  using assms unfolding tailwind_unguarded
  by (auto simp: Let_def cacheGet_def split: if_splits sum.splits prod.splits intro: sym)

lemma replaceSpaces_all_space:
  assumes "\<forall>c\<in>set s. isSpace c"
  shows "replaceSpaces s = (if s = [] then [] else '' '')"
proof (cases s)
  case Nil
  then show ?thesis by simp
next
  case (Cons c cs)
  with assms have d: "dropWhile isSpace cs = []" by (simp add: dropWhile_eq_Nil_conv)
  from Cons assms have "isSpace c" by simp
  with Cons show ?thesis by (simp add: d)
qed

lemma cacheKey_all_space:
  assumes "\<forall>c\<in>set s. isSpace c"
  shows "cacheKey s w = []" and "\<not> haveMaxWidthKeys s"
proof -
  have "trim (replaceSpaces s) = []"
    by (simp add: replaceSpaces_all_space [OF assms] trim_def isSpace_def)
  then have sp: "splitClassNames s = [[]]" by (simp add: splitClassNames_def)
  have "\<not> includes_str [] k" if "k \<in> set maxWidthKeys" for k
    using that by (auto simp: includes_str_def maxWidthKeys_def)
  with sp show h: "\<not> haveMaxWidthKeys s" by (simp add: haveMaxWidthKeys_tokens)
  have "sortClassNames [[]] = [[]]" by code_simp
  with sp h show "cacheKey s w = []" by (simp add: cacheKey_def finalClassNames_def)
qed

lemma reachable_empty_entry:
  assumes "reachable ops tailwindStyles st"
  shows "cache st [] = Some 0 \<and> heap st \<noteq> [] \<and> heap st ! 0 = []"
  using assms
proof (induction rule: reachable.induct)
  case reachable_create
  then show ?case by (simp add: create_def)
next
  case (reachable_call st classNames windowWidth res st')
  then show ?case unfolding tailwind_unguarded
    by (auto simp: Let_def nth_append split: if_splits sum.splits prod.splits)
qed

lemma reachable_natives:
  assumes "reachable ops tailwindStyles st"
  shows "length inheritedNames < length (heap st) \<and> (\<forall>i\<le>length inheritedNames. heap st ! i = [])"
  using assms
proof (induction rule: reachable.induct)
  case reachable_create
  then show ?case by (auto simp: create_def nth_Cons')
next
  case (reachable_call st classNames windowWidth res st')
  then show ?case unfolding tailwind_unguarded
    by (auto simp: Let_def nth_append split: if_splits sum.splits prod.splits)
qed

lemma reachable_nativeRef:
  assumes "reachable ops tailwindStyles st" and "nativeRef k = Some r"
  shows "r < length (heap st)" and "heap st ! r = []"
  using reachable_natives [OF assms(1)] nativeRef_Some(3) [OF assms(2)] by auto

section \<open>Facts about variables\<close>


lemma not_isVarChar_paren [simp]: "\<not> isVarChar CHR '')''"
  by (simp add: isVarChar_def)



lemma placeholderAt_Nil [simp]: "\<not> spec_placeholderAt [] i n"
  by (auto simp: spec_placeholderAt_def)



declare execVar.simps(2) [simp del]




lemma useVariablesLoop_map_of:
  assumes "distinct (map fst entries)"
  shows "map_of (useVariablesLoop ops object entries newObject) key =
     (case map_of entries key of
        None \<Rightarrow> map_of newObject key
      | Some v \<Rightarrow> if startsWith key ''--'' then map_of newObject key
                  else Some (substituted ops object v))"
  using assms
proof (induction entries arbitrary: newObject)
  case Nil
  then show ?case by simp
next
  case (Cons e entries)
  obtain k v where e: "e = (k, v)" by (cases e)
  from Cons.prems e have nk: "map_of entries k = None" and d: "distinct (map fst entries)"
    by (auto simp: map_of_eq_None_iff)
  show ?case
    using Cons.IH [OF d] nk unfolding e
    by (auto simp: update_conv' split: option.splits)
qed

lemma useVariables_map_of:
  assumes "distinct (map fst object)"
  shows "map_of (useVariables ops object) key =
     (if startsWith key ''--'' then None else map_option (substituted ops object) (map_of object key))"
  by (simp add: useVariables_def useVariablesLoop_map_of [OF assms] split: option.splits)

section \<open>Facts about the merge and the cached objects\<close>

lemma map_of_assign: "map_of (assign target source) = map_of target ++ map_of (rev source)"
  unfolding assign_def
proof (induction source arbitrary: target)
  case Nil
  then show ?case by simp
next
  case (Cons e source)
  obtain k v where e: "e = (k, v)" by (cases e)
  show ?case unfolding e by (simp add: Cons update_conv' map_add_upd_left [symmetric] del: map_add_upd_left)
     (simp add: map_add_def fun_eq_iff split: option.splits)
qed

lemma map_of_rev_distinct:
  assumes "distinct (map fst xs)"
  shows "map_of (rev xs) = map_of xs"
proof -
  have "distinct (map fst (rev xs))" using assms by (simp add: rev_map [symmetric])
  from map_of_inject_set [OF this assms] show ?thesis by simp
qed

lemma distinct_assign:
  "distinct (map fst target) \<Longrightarrow> distinct (map fst (assign target source))"
  unfolding assign_def
  by (induction source arbitrary: target) (auto simp: distinct_update)


lemma mergeLoop_warned:
  "snd (mergeLoop ts key names (style, warned)) =
     warned @ map (\<lambda>c. warning c key) (filter (\<lambda>c. lookupClass ts c = None) names)"
  by (induction names arbitrary: style warned) (auto split: option.splits)

lemma mergeLoop_distinct:
  "distinct (map fst style) \<Longrightarrow> distinct (map fst (fst (mergeLoop ts key names (style, warned))))"
  by (induction names arbitrary: style warned) (auto split: option.splits simp: distinct_assign)

lemma mergeLoop_untouched:
  assumes "\<forall>c\<in>set names. \<forall>f. ts c = Some f \<longrightarrow> p \<notin> fst ` set f"
  shows "map_of (fst (mergeLoop ts key names (style, warned))) p = map_of style p"
  using assms
proof (induction names arbitrary: style warned)
  case Nil
  then show ?case by simp
next
  case (Cons c names)
  show ?case
  proof (cases "lookupClass ts c")
    case None
    with Cons show ?thesis by simp
  next
    case (Some f)
    with Cons.prems lookupClass_Some [OF Some] have "p \<notin> fst ` set f" by auto
    then have "map_of (rev f) p = None" by (simp add: map_of_eq_None_iff)
    with Some Cons show ?thesis by (simp add: map_of_assign map_add_def)
  qed
qed


lemma addFontVariant_distinct: "distinct (map fst (addFontVariant [] key))"
  by (simp add: addFontVariant_def Let_def)

lemma addLetterSpacing_distinct:
  "distinct (map fst style) \<Longrightarrow> addLetterSpacing ops ts style key = Inr style'
     \<Longrightarrow> distinct (map fst style')"
  by (auto simp: addLetterSpacing_def distinct_update split: option.splits)

lemma computeStyle_errors: "computeStyle ops ts key \<noteq> Inl WithoutWindowWidth"
  by (auto simp: computeStyle_def mergedStyle_def addLetterSpacing_def
        split: sum.splits option.splits prod.splits)

lemma mergedStyle_Inr:
  "mergedStyle ops ts key = Inr (merged, warned) \<longleftrightarrow>
     (\<exists>style. addLetterSpacing ops ts (addFontVariant [] key) key = Inr style
        \<and> mergeLoop ts key (separateClassNames key) (style, []) = (merged, warned))"
  by (auto simp: mergedStyle_def split: sum.splits)

lemma mergedStyle_distinct:
  assumes "mergedStyle ops ts key = Inr (merged, warned)"
  shows "distinct (map fst merged)"
proof -
  from assms obtain style where a: "addLetterSpacing ops ts (addFontVariant [] key) key = Inr style"
    and l: "mergeLoop ts key (separateClassNames key) (style, []) = (merged, warned)"
    by (auto simp: mergedStyle_Inr)
  from addLetterSpacing_distinct [OF addFontVariant_distinct a]
  have "distinct (map fst (fst (mergeLoop ts key (separateClassNames key) (style, []))))"
    by (rule mergeLoop_distinct)
  with l show ?thesis by simp
qed

lemma computeStyle_Inr:
  "computeStyle ops ts key = Inr (obj, warned) \<longleftrightarrow>
     (\<exists>merged. mergedStyle ops ts key = Inr (merged, warned) \<and> obj = useVariables ops merged)"
  by (auto simp: computeStyle_def split: sum.splits)

lemma computeStyle_Inl:
  "computeStyle ops ts key = Inl e \<longleftrightarrow> mergedStyle ops ts key = Inl e"
  by (auto simp: computeStyle_def split: sum.splits)

lemma reachable_cache_sound:
  assumes "reachable ops ts st"
  shows "cache st k = Some r \<Longrightarrow> k \<noteq> [] \<Longrightarrow>
     r < length (heap st) \<and> (\<exists>warned. computeStyle ops ts k = Inr (heap st ! r, warned))"
  using assms
proof (induction arbitrary: k r rule: reachable.induct)
  case reachable_create
  then show ?case by (simp add: create_def split: if_splits)
next
  case (reachable_call st classNames windowWidth res st')
  show ?case
  proof (cases "st' = st")
    case True
    with reachable_call show ?thesis by simp
  next
    case False
    with reachable_call.hyps(2) obtain newObject warned where
      c: "computeStyle ops ts (cacheKey classNames windowWidth) = Inr (newObject, warned)"
      and st': "st' = st\<lparr>cache := (cache st)(cacheKey classNames windowWidth \<mapsto> length (heap st)),
                    heap := heap st @ [newObject], warnings := warnings st @ warned\<rparr>"
      unfolding tailwind_unguarded
      by (auto simp: Let_def split: if_splits sum.splits prod.splits)
    show ?thesis
    proof (cases "k = cacheKey classNames windowWidth")
      case True
      with reachable_call.prems st' c show ?thesis by auto
    next
      case False
      with reachable_call.prems st' have "cache st k = Some r" by simp
      from reachable_call.IH [OF this reachable_call.prems(2)] st'
      show ?thesis by (auto simp: nth_append)
    qed
  qed
qed

lemma tailwind_returns:
  assumes "reachable ops ts st" and "\<not> (haveMaxWidthKeys classNames \<and> \<not> truthy w)"
    and "cacheKey classNames w \<noteq> []" and "cacheKey classNames w \<notin> set inheritedNames"
    and "computeStyle ops ts (cacheKey classNames w) = Inr (obj, warned)"
  shows "\<exists>r st'. tailwind ops ts st classNames w = (Inr (Some r), st') \<and> heap st' ! r = obj"
proof (cases "cache st (cacheKey classNames w)")
  case None
  with assms show ?thesis unfolding tailwind_unguarded by (auto simp: Let_def)
next
  case (Some r)
  from reachable_cache_sound [OF assms(1) Some assms(3)] assms(5)
  have "heap st ! r = obj" by auto
  with Some assms show ?thesis unfolding tailwind_unguarded by (auto simp: Let_def cacheGet_def)
qed

lemma tailwind_throws:
  assumes "reachable ops ts st" and "\<not> (haveMaxWidthKeys classNames \<and> \<not> truthy w)"
    and "cacheKey classNames w \<noteq> []" and "cacheKey classNames w \<notin> set inheritedNames"
    and "computeStyle ops ts (cacheKey classNames w) = Inl e"
  shows "tailwind ops ts st classNames w = (Inl e, st)"
proof (cases "cache st (cacheKey classNames w)")
  case None
  with assms show ?thesis unfolding tailwind_unguarded by (auto simp: Let_def)
next
  case (Some r)
  from reachable_cache_sound [OF assms(1) Some assms(3)] assms(5)
  show ?thesis by auto
qed

lemma startsWith_tag:
  assumes "take 3 t = k" and "length k = 3"
  shows "startsWith t (k @ l) = startsWith (drop 3 t) l"
proof -
  have "t = k @ drop 3 t" using assms(1) by (metis append_take_drop_id)
  then have "prefix (k @ l) t = prefix (k @ l) (k @ drop 3 t)" by simp
  then show ?thesis by (simp add: startsWith_def)
qed

lemma tierIndex_keys:
  "spec_tierIndex t = None \<longleftrightarrow> take 3 t \<notin> set maxWidthKeys"
  "i < 4 \<Longrightarrow> spec_tierIndex t = Some i \<longleftrightarrow> take 3 t = maxWidthKeys ! i"
proof -
  show "spec_tierIndex t = None \<longleftrightarrow> take 3 t \<notin> set maxWidthKeys"
    by (simp only: spec_tierIndex_def keys_spec indexOf_None)
  assume "i < 4"
  then have "i = 0 \<or> i = 1 \<or> i = 2 \<or> i = 3" by arith
  then show "spec_tierIndex t = Some i \<longleftrightarrow> take 3 t = maxWidthKeys ! i"
    by (auto simp: spec_tierIndex_def spec_tiers_def maxWidthKeys_def)
qed

lemma leading_bucket:
  assumes "\<forall>t\<in>set b. spec_tierIndex t = tier"
    and "key = (case tier of None \<Rightarrow> [] | Some i \<Rightarrow> maxWidthKeys ! i)"
    and "case tier of None \<Rightarrow> True | Some i \<Rightarrow> i < 4"
  shows "putLeadingToTheBack b key = spec_leadingLast b"
proof -
  have "startsWith t (key @ ''leading-'') = spec_isLeading t" if "t \<in> set b" for t
  proof (cases tier)
    case None
    with that assms show ?thesis by (simp add: spec_isLeading_def spec_strip_def)
  next
    case (Some i)
    with that assms have ti: "spec_tierIndex t = Some i" and i: "i < 4" by auto
    then have "take 3 t = maxWidthKeys ! i" by (simp add: tierIndex_keys)
    moreover from i have "length (maxWidthKeys ! i) = 3"
      by (auto simp: maxWidthKeys_def less_Suc_eq numeral_eq_Suc)
    ultimately show ?thesis using Some assms(2) ti
      by (simp add: startsWith_tag spec_isLeading_def spec_strip_def)
  qed
  then have "filter (\<lambda>n. startsWith n (key @ ''leading-'')) b = filter spec_isLeading b"
    and "filter (\<lambda>n. \<not> startsWith n (key @ ''leading-'')) b = filter (\<lambda>t. \<not> spec_isLeading t) b"
    by (auto intro: filter_cong)
  then show ?thesis by (simp add: putLeadingToTheBack_filter spec_leadingLast_def)
qed

lemma bucket_untagged:
  "putLeadingToTheBack (sort (filter (\<lambda>c. take 3 c \<notin> set maxWidthKeys) tokens)) []
     = spec_leadingLast (spec_bucket tokens None)"
proof -
  have "filter (\<lambda>c. take 3 c \<notin> set maxWidthKeys) tokens
      = filter (\<lambda>t. spec_tierIndex t = None) tokens"
    by (simp add: tierIndex_keys)
  then have "sort (filter (\<lambda>c. take 3 c \<notin> set maxWidthKeys) tokens) = spec_bucket tokens None"
    by (simp add: spec_bucket_def)
  moreover have "putLeadingToTheBack (spec_bucket tokens None) [] = spec_leadingLast (spec_bucket tokens None)"
    by (rule leading_bucket [where tier = None]) (simp_all add: spec_bucket_def)
  ultimately show ?thesis by simp
qed

lemma bucket_tagged:
  assumes "i < 4"
  shows "putLeadingToTheBack (sort (filter (\<lambda>c. take 3 c = maxWidthKeys ! i) tokens)) (maxWidthKeys ! i)
     = spec_leadingLast (spec_bucket tokens (Some i))"
proof -
  have "filter (\<lambda>c. take 3 c = maxWidthKeys ! i) tokens
      = filter (\<lambda>t. spec_tierIndex t = Some i) tokens"
    using assms by (simp add: tierIndex_keys)
  then have "sort (filter (\<lambda>c. take 3 c = maxWidthKeys ! i) tokens) = spec_bucket tokens (Some i)"
    by (simp add: spec_bucket_def)
  moreover have "putLeadingToTheBack (spec_bucket tokens (Some i)) (maxWidthKeys ! i)
      = spec_leadingLast (spec_bucket tokens (Some i))"
    by (rule leading_bucket [where tier = "Some i"]) (simp_all add: spec_bucket_def assms)
  ultimately show ?thesis by simp
qed

lemma sortClassNames_buckets:
  "sortClassNames tokens =
     concat (map (\<lambda>tier. spec_leadingLast (spec_bucket tokens tier))
       [None, Some 0, Some 1, Some 2, Some 3])"
proof -
  have l: "(0::nat) < 4" "(1::nat) < 4" "(2::nat) < 4" "(3::nat) < 4" by simp_all
  show ?thesis
    by (simp only: sortClassNames_def Let_def bucket_untagged l [THEN bucket_tagged]
          list.map concat.simps append_Nil2 append_assoc)
qed

lemma two_tokens_computeStyle:
  assumes "matchAll key = []" and "execLetterSpacing key = None"
    and "separateClassNames key = [a, b]" and "ts a = Some fa" and "ts b = Some fb"
  shows "computeStyle ops ts key = Inr (useVariables ops (assign (assign [] fa) fb), [])"
  using assms
  by (simp add: computeStyle_def mergedStyle_def addFontVariant_def addLetterSpacing_def
        lookupClass_def)

lemma two_tokens_property:
  assumes "distinct (map fst fb)" and "map_of fb p = Some v" and "\<not> startsWith p ''--''"
  shows "map_of (useVariables ops (assign (assign [] fa) fb)) p
     = Some (substituted ops (assign (assign [] fa) fb) v)"
proof -
  have d: "distinct (map fst (assign (assign [] fa) fb))"
    by (intro distinct_assign) simp
  have "map_of (assign (assign [] fa) fb) p = Some v"
    using assms(2) by (simp add: map_of_assign map_of_rev_distinct [OF assms(1)])
  with assms(3) show ?thesis by (simp add: useVariables_map_of [OF d])
qed

section \<open>Facts about the cross-class resolvers and the errors\<close>

lemma tailwind_result:
  assumes "reachable ops ts st" and "tailwind ops ts st classNames w = (Inr (Some r), st')"
  shows "((cacheKey classNames w = [] \<or> cacheKey classNames w \<in> set inheritedNames)
            \<and> heap st' ! r = [])
       \<or> (cacheKey classNames w \<noteq> []
            \<and> (\<exists>warned. computeStyle ops ts (cacheKey classNames w) = Inr (heap st' ! r, warned)))"
proof (cases "cacheKey classNames w = []")
  case True
  with assms(2) reachable_empty_entry [OF assms(1)] show ?thesis
    unfolding tailwind_unguarded by (auto simp: Let_def split: if_splits)
next
  case False
  show ?thesis
  proof (cases "cache st (cacheKey classNames w)")
    case None
    show ?thesis
    proof (cases "cacheKey classNames w \<in> set inheritedNames")
      case True
      with None False assms(2) have "nativeRef (cacheKey classNames w) = Some r" "st' = st"
        unfolding tailwind_unguarded by (auto simp: Let_def cacheGet_def split: if_splits)
      with reachable_nativeRef(2) [OF assms(1)] True show ?thesis by simp
    next
      case n: False
      with None False assms(2) show ?thesis
        unfolding tailwind_unguarded
        by (auto simp: Let_def split: if_splits sum.splits prod.splits)
    qed
  next
    case (Some r')
    with False assms(2) have "r' = r" "st' = st"
      unfolding tailwind_unguarded by (auto simp: Let_def cacheGet_def split: if_splits)
    with reachable_cache_sound [OF assms(1) Some False] False show ?thesis by auto
  qed
qed

lemma addLetterSpacing_other:
  assumes "addLetterSpacing ops ts style key = Inr style'" and "p \<noteq> ''letterSpacing''"
  shows "map_of style' p = map_of style p"
  using assms by (auto simp: addLetterSpacing_def update_conv' split: option.splits)

lemma computeStyle_property:
  assumes "computeStyle ops ts key = Inr (obj, warned)"
    and "\<forall>c\<in>set (separateClassNames key). \<forall>f. ts c = Some f \<longrightarrow> p \<notin> fst ` set f"
    and "\<not> startsWith p ''--''"
  shows "\<exists>style. addLetterSpacing ops ts (addFontVariant [] key) key = Inr style
     \<and> map_of obj p = map_option (substituted ops (fst (mergeLoop ts key (separateClassNames key) (style, [])))) (map_of style p)"
proof -
  from assms(1) obtain style where a: "addLetterSpacing ops ts (addFontVariant [] key) key = Inr style"
    by (auto simp: computeStyle_def mergedStyle_def split: sum.splits)
  let ?merged = "fst (mergeLoop ts key (separateClassNames key) (style, []))"
  from assms(1) a have o: "obj = useVariables ops ?merged"
    by (auto simp: computeStyle_def mergedStyle_def split: prod.splits)
  have d: "distinct (map fst ?merged)"
    by (rule mergeLoop_distinct [OF addLetterSpacing_distinct [OF addFontVariant_distinct a]])
  have "map_of ?merged p = map_of style p" by (rule mergeLoop_untouched [OF assms(2)])
  with a o assms(3) show ?thesis by (simp add: useVariables_map_of [OF d])
qed

lemma computeStyle_fontVariant:
  assumes "computeStyle ops ts key = Inr (obj, warned)"
    and "\<forall>c\<in>set (separateClassNames key). \<forall>f. ts c = Some f \<longrightarrow> ''fontVariant'' \<notin> fst ` set f"
  shows "map_of obj ''fontVariant''
     = (if matchAll key = [] then None else Some (VArr (map VStr (matchAll key))))"
proof -
  have n: "\<not> startsWith ''fontVariant'' ''--''" by (simp add: startsWith_def)
  from computeStyle_property [OF assms n] obtain style where
    a: "addLetterSpacing ops ts (addFontVariant [] key) key = Inr style"
    and m: "map_of obj ''fontVariant'' = map_option (substituted ops (fst (mergeLoop ts key (separateClassNames key) (style, [])))) (map_of style ''fontVariant'')"
    by blast
  have "map_of style ''fontVariant'' = map_of (addFontVariant [] key) ''fontVariant''"
    by (rule addLetterSpacing_other [OF a]) simp
  with m show ?thesis by (simp add: addFontVariant_def Let_def substituted_def)
qed

lemma computeStyle_letterSpacing:
  assumes "execLetterSpacing key = Some m" and "execFontSize key = Some f"
    and "ts m = Some lf" and "ts f = Some ff"
    and "\<forall>c\<in>set (separateClassNames key). \<forall>g. ts c = Some g \<longrightarrow> ''letterSpacing'' \<notin> fst ` set g"
  shows "\<exists>obj warned. computeStyle ops ts key = Inr (obj, warned)
     \<and> map_of obj ''letterSpacing''
        = Some (VNum (multiply ops (parseFloat ops (getProp lf ''letterSpacing'')) (getProp ff ''fontSize'')))"
proof -
  let ?v = "VNum (multiply ops (parseFloat ops (getProp lf ''letterSpacing'')) (getProp ff ''fontSize''))"
  let ?style = "AList.update ''letterSpacing'' ?v (addFontVariant [] key)"
  have a: "addLetterSpacing ops ts (addFontVariant [] key) key = Inr ?style"
    using assms(1-4) by (simp add: addLetterSpacing_def lookupClass_def)
  obtain merged warned where l: "mergeLoop ts key (separateClassNames key) (?style, []) = (merged, warned)"
    by (cases "mergeLoop ts key (separateClassNames key) (?style, [])")
  with a have c: "computeStyle ops ts key = Inr (useVariables ops merged, warned)"
    by (simp add: computeStyle_def mergedStyle_def)
  have n: "\<not> startsWith ''letterSpacing'' ''--''" by (simp add: startsWith_def)
  from computeStyle_property [OF c assms(5) n] a l
  have "map_of (useVariables ops merged) ''letterSpacing'' = Some ?v"
    by (simp add: update_conv' substituted_def)
  with c show ?thesis by blast
qed

lemma computeStyle_returns:
  assumes "execLetterSpacing key = None
     \<or> (\<exists>m f. execLetterSpacing key = Some m \<and> execFontSize key = Some f \<and> ts m \<noteq> None \<and> ts f \<noteq> None)"
  shows "\<exists>obj. computeStyle ops ts key
     = Inr (obj, map (\<lambda>c. warning c key) (filter (\<lambda>c. lookupClass ts c = None) (separateClassNames key)))"
proof -
  from assms obtain style where a: "addLetterSpacing ops ts (addFontVariant [] key) key = Inr style"
    by (auto simp: addLetterSpacing_def lookupClass_def split: option.splits)
  obtain merged warned where l: "mergeLoop ts key (separateClassNames key) (style, []) = (merged, warned)"
    by (cases "mergeLoop ts key (separateClassNames key) (style, [])")
  from mergeLoop_warned [of ts key "separateClassNames key" style "[]"] l
  have "warned = map (\<lambda>c. warning c key) (filter (\<lambda>c. lookupClass ts c = None) (separateClassNames key))"
    by simp
  with a l show ?thesis by (simp add: computeStyle_def mergedStyle_def)
qed

lemma computeStyle_FontSizeRequired:
  "computeStyle ops ts key = Inl FontSizeRequired
     \<longleftrightarrow> execLetterSpacing key \<noteq> None \<and> execFontSize key = None"
  by (auto simp: computeStyle_def mergedStyle_def addLetterSpacing_def
        split: option.splits sum.splits prod.splits)

lemma separate_not_tracking: "\<forall>c\<in>set (separateClassNames key). \<not> startsWith c ''tracking-''"
  by (simp add: separateClassNames_def)

lemma separate_not_variant: "\<forall>c\<in>set (separateClassNames key). c \<notin> set fontVariantKeywords"
  by (simp add: separateClassNames_def)

lemma execFontSize_None_iff:
  "execFontSize s = None \<longleftrightarrow> (\<forall>size\<in>set fontSizes. \<not> includes_str s (''text-'' @ size))"
proof (induction s)
  case Nil
  then show ?case by (simp add: includes_str_def)
next
  case (Cons c cs)
  show ?case
  proof (cases "find (\<lambda>a. prefix (''text-'' @ a) (c # cs)) fontSizes")
    case None
    then have "\<forall>size\<in>set fontSizes. \<not> prefix (''text-'' @ size) (c # cs)"
      by (simp only: find_None_iff) blast
    with None Cons show ?thesis by (simp add: includes_str_def sublist_Cons_right del: prefix_code)
  next
    case (Some a)
    then have "a \<in> set fontSizes" and "prefix (''text-'' @ a) (c # cs)"
      by (auto simp only: find_Some_iff nth_mem)
    then have "\<exists>size\<in>set fontSizes. includes_str (c # cs) (''text-'' @ size)"
      unfolding includes_str_def by (blast intro: prefix_imp_sublist)
    with Some show ?thesis by simp
  qed
qed

lemma execFontSize_Some:
  assumes "execFontSize s = Some f"
  shows "(\<exists>size\<in>set fontSizes. f = ''text-'' @ size) \<and> includes_str s f"
  using assms
proof (induction s)
  case Nil
  then show ?case by simp
next
  case (Cons c cs)
  show ?case
  proof (cases "find (\<lambda>a. prefix (''text-'' @ a) (c # cs)) fontSizes")
    case None
    with Cons show ?thesis by (auto simp: includes_str_def sublist_Cons_right simp del: prefix_code)
  next
    case (Some a)
    then have "a \<in> set fontSizes" and "prefix (''text-'' @ a) (c # cs)"
      by (auto simp only: find_Some_iff nth_mem)
    moreover from Some Cons.prems have "f = ''text-'' @ a" by simp
    ultimately show ?thesis unfolding includes_str_def by (blast intro: prefix_imp_sublist)
  qed
qed

lemma tracking_here:
  "(prefix ''tracking-'' s \<and> takeWhile isLower (drop 9 s) \<noteq> [])
     \<longleftrightarrow> (\<exists>c. isLower c \<and> prefix (''tracking-'' @ [c]) s)"
proof
  assume a: "prefix ''tracking-'' s \<and> takeWhile isLower (drop 9 s) \<noteq> []"
  then obtain r where s: "s = ''tracking-'' @ r" by (auto simp: prefix_def)
  then have d: "drop 9 s = r" by simp
  with a obtain c r' where r: "r = c # r'" and "isLower c"
    by (cases r) (auto split: if_splits)
  with s show "\<exists>c. isLower c \<and> prefix (''tracking-'' @ [c]) s" by auto
next
  assume "\<exists>c. isLower c \<and> prefix (''tracking-'' @ [c]) s"
  then obtain c r where c: "isLower c" and s: "s = (''tracking-'' @ [c]) @ r"
    by (auto simp: prefix_def)
  from s have "drop 9 s = c # r" by simp
  with c s show "prefix ''tracking-'' s \<and> takeWhile isLower (drop 9 s) \<noteq> []" by simp
qed

lemma execLetterSpacing_Cons:
  "execLetterSpacing (c # cs) =
     (if \<exists>l. isLower l \<and> prefix (''tracking-'' @ [l]) (c # cs)
      then Some (''tracking-'' @ takeWhile isLower (drop 9 (c # cs)))
      else execLetterSpacing cs)"
  by (simp only: execLetterSpacing.simps Let_def tracking_here)

lemma execLetterSpacing_None_iff:
  "execLetterSpacing s = None \<longleftrightarrow> (\<forall>l. isLower l \<longrightarrow> \<not> includes_str s (''tracking-'' @ [l]))"
proof (induction s)
  case Nil
  then show ?case by (simp add: includes_str_def)
next
  case (Cons c cs)
  show ?case unfolding execLetterSpacing_Cons includes_str_def sublist_Cons_right
    using Cons by (auto simp: includes_str_def simp del: prefix_code)
qed

lemma execLetterSpacing_Some:
  assumes "execLetterSpacing s = Some m"
  shows "(\<exists>letters. m = ''tracking-'' @ letters \<and> letters \<noteq> [] \<and> list_all isLower letters)
     \<and> includes_str s m"
  using assms
proof (induction s)
  case Nil
  then show ?case by simp
next
  case (Cons c cs)
  show ?case
  proof (cases "\<exists>l. isLower l \<and> prefix (''tracking-'' @ [l]) (c # cs)")
    case True
    with Cons.prems have m: "m = ''tracking-'' @ takeWhile isLower (drop 9 (c # cs))"
      by (simp only: execLetterSpacing_Cons if_True option.inject)
    from True have t: "prefix ''tracking-'' (c # cs)" "takeWhile isLower (drop 9 (c # cs)) \<noteq> []"
      using tracking_here [of "c # cs"] by blast+
    from t(1) obtain r where r: "c # cs = ''tracking-'' @ r" by (auto simp only: prefix_def)
    have "length ''tracking-'' = 9" by simp
    with r have "drop 9 (c # cs) = r" by (metis append_eq_conv_conj)
    with m r have "prefix m (c # cs)"
      by (simp only: same_prefix_prefix takeWhile_is_prefix)
    then have "includes_str (c # cs) m" by (simp only: includes_str_def prefix_imp_sublist)
    moreover have "list_all isLower (takeWhile isLower (drop 9 (c # cs)))"
      by (simp only: list_all_iff) (meson set_takeWhileD)
    ultimately show ?thesis using m t(2) by blast
  next
    case False
    with Cons.prems have "execLetterSpacing cs = Some m"
      by (simp only: execLetterSpacing_Cons if_False)
    from Cons.IH [OF this] show ?thesis
      by (auto simp: includes_str_def sublist_Cons_right simp del: prefix_code)
  qed
qed

section \<open>Facts about the tokens that are merged\<close>



















section \<open>Facts about a call\<close>




lemma tailwind_merged:
  assumes "reachable ops ts st" and "tailwind ops ts st classNames w = (Inr (Some r), st')"
    and "cacheKey classNames w \<noteq> []" and "cacheKey classNames w \<notin> set inheritedNames"
  shows "\<exists>merged warned. mergedStyle ops ts (cacheKey classNames w) = Inr (merged, warned)
     \<and> distinct (map fst merged) \<and> heap st' ! r = useVariables ops merged"
proof -
  from tailwind_result [OF assms(1) assms(2)] assms(3) assms(4)
  obtain warned where "computeStyle ops ts (cacheKey classNames w) = Inr (heap st' ! r, warned)"
    by blast
  then obtain merged where m: "mergedStyle ops ts (cacheKey classNames w) = Inr (merged, warned)"
    and h: "heap st' ! r = useVariables ops merged"
    by (auto simp: computeStyle_Inr)
  from mergedStyle_distinct [OF m] m h show ?thesis by blast
qed

lemma tailwind_warnings:
  assumes "reachable ops ts st" and "\<not> (haveMaxWidthKeys classNames \<and> \<not> truthy w)"
    and "computeStyle ops ts (cacheKey classNames w) = Inr (obj, warned)"
  shows "\<exists>r st'. tailwind ops ts st classNames w = (Inr (Some r), st')
     \<and> warnings st' = warnings st
          @ (if cacheKey classNames w = [] \<or> cache st (cacheKey classNames w) \<noteq> None
                \<or> cacheKey classNames w \<in> set inheritedNames
             then [] else warned)"
proof -
  from reachable_empty_entry [OF assms(1)] have e: "cache st [] = Some 0" by simp
  have n: "\<exists>r. cacheGet st k = Some r" if "cache st k \<noteq> None \<or> k \<in> set inheritedNames" for k
    using that nativeRef_None [of k] by (cases "cache st k") (auto simp: cacheGet_def)
  show ?thesis
  proof (cases "cacheKey classNames w = []")
    case True
    with assms(2) e show ?thesis unfolding tailwind_unguarded by (simp add: Let_def)
  next
    case ne: False
    show ?thesis
    proof (cases "cache st (cacheKey classNames w) \<noteq> None \<or> cacheKey classNames w \<in> set inheritedNames")
      case True
      from n [OF True] obtain r where "cacheGet st (cacheKey classNames w) = Some r" ..
      with True ne assms(2) show ?thesis unfolding tailwind_unguarded by (auto simp: Let_def)
    next
      case False
      with ne assms(2) assms(3) show ?thesis unfolding tailwind_unguarded by (auto simp: Let_def)
    qed
  qed
qed



lemma mergeLoop_supported:
  "fst (mergeLoop ts key names (style, warned))
     = fst (mergeLoop ts key (filter (\<lambda>c. lookupClass ts c \<noteq> None) names) (style, warned'))"
  by (induction names arbitrary: style warned warned') (auto split: option.splits)





section \<open>Breakpoint filtering\<close>




section \<open>The cache\<close>

text \<open>
  Claim C8.  When a call returns a result, the same call in the state it leaves
  returns the same reference and leaves the state as it is: the cache, the heap
  and the list of warnings are unchanged, so nothing is computed or warned again.
\<close>

theorem idempotence:
  assumes "tailwind ops tailwindStyles st classNames windowWidth = (Inr r, st')"
  shows "tailwind ops tailwindStyles st' classNames windowWidth = (Inr r, st')"
  using assms by (rule tailwind_again) simp_all

theorem idempotence_witness:
  "fst (tailwind exampleOps exampleStyles create ''text-lg  nope bg-red-500'' None) = Inr (Some 13)
   \<and> warnings (snd (tailwind exampleOps exampleStyles create ''text-lg  nope bg-red-500'' None))
       = [warning ''nope'' ''bg-red-500 nope text-lg'']
   \<and> tailwind exampleOps exampleStyles
         (snd (tailwind exampleOps exampleStyles create ''text-lg  nope bg-red-500'' None))
         ''text-lg  nope bg-red-500'' None
       = (Inr (Some 13), snd (tailwind exampleOps exampleStyles create ''text-lg  nope bg-red-500'' None))"
proof -
  have a: "fst (tailwind exampleOps exampleStyles create ''text-lg  nope bg-red-500'' None) = Inr (Some 13)"
    by code_simp
  have b: "warnings (snd (tailwind exampleOps exampleStyles create ''text-lg  nope bg-red-500'' None))
       = [warning ''nope'' ''bg-red-500 nope text-lg'']"
    by code_simp
  from a have "tailwind exampleOps exampleStyles create ''text-lg  nope bg-red-500'' None
      = (Inr (Some 13), snd (tailwind exampleOps exampleStyles create ''text-lg  nope bg-red-500'' None))"
    by (simp add: prod_eq_iff)
  from idempotence [OF this] a b show ?thesis by simp
qed

text \<open>
  Claim C9.  In every state a closure can reach, a call with an empty string or
  with a string of white space only returns the reference stored for the empty
  key and changes nothing; that reference is the one \<open>create\<close> stored, and the
  object it points to is still the empty object.
\<close>

theorem empty_input:
  assumes "reachable ops tailwindStyles st" and "\<forall>c\<in>set classNames. isSpace c"
  shows "tailwind ops tailwindStyles st classNames windowWidth = (Inr (Some 0), st)
       \<and> cache create [] = Some 0 \<and> cache st [] = Some 0 \<and> heap st ! 0 = []"
  using reachable_empty_entry [OF assms(1)] cacheKey_all_space [OF assms(2)]
  by (simp add: tailwind_unguarded create_def)

theorem empty_input_witness:
  "tailwind exampleOps exampleStyles
     (snd (tailwind exampleOps exampleStyles create ''p-1'' None)) [CHR 0x09, CHR '' '', CHR 0x0A] None
     = (Inr (Some 0), snd (tailwind exampleOps exampleStyles create ''p-1'' None))
   \<and> heap (snd (tailwind exampleOps exampleStyles create ''p-1'' None)) ! 0 = []
   \<and> heap (snd (tailwind exampleOps exampleStyles create ''p-1'' None)) ! 13 = [(''padding'', VNum ''4'')]"
proof -
  have r: "reachable exampleOps exampleStyles (snd (tailwind exampleOps exampleStyles create ''p-1'' None))"
    by (rule reachable_call [OF reachable_create]) (rule prod.collapse [symmetric])
  have w: "\<forall>c\<in>set [CHR 0x09, CHR '' '', CHR 0x0A]. isSpace c" by (simp add: isSpace_def)
  have h: "heap (snd (tailwind exampleOps exampleStyles create ''p-1'' None)) ! 13 = [(''padding'', VNum ''4'')]"
    by code_simp
  from empty_input [OF r w, of None] h show ?thesis by blast
qed

text \<open>
  Claim C10.  Two input strings whose token lists are equal as multisets have the
  same cache key at every width, and when a call with the first returns a
  result, a call with the second in the state it leaves returns the same
  reference and changes nothing.
\<close>

theorem order_insensitive:
  assumes "mset (splitClassNames s1) = mset (splitClassNames s2)"
    and "tailwind ops tailwindStyles st s1 w = (Inr r, st1)"
  shows "cacheKey s1 w = cacheKey s2 w
       \<and> tailwind ops tailwindStyles st1 s2 w = (Inr r, st1)"
  using tailwind_again [OF assms(2), of s2] cacheKey_mset_cong [OF assms(1)] have_mset_cong [OF assms(1)]
  by simp

theorem order_insensitive_witness:
  "mset (splitClassNames ''p-1   text-lg'') = mset (splitClassNames '' text-lg p-1'')
   \<and> fst (tailwind exampleOps exampleStyles create ''p-1   text-lg'' None) = Inr (Some 13)
   \<and> cacheKey ''p-1   text-lg'' None = cacheKey '' text-lg p-1'' None
   \<and> tailwind exampleOps exampleStyles
         (snd (tailwind exampleOps exampleStyles create ''p-1   text-lg'' None)) '' text-lg p-1'' None
       = (Inr (Some 13), snd (tailwind exampleOps exampleStyles create ''p-1   text-lg'' None))"
proof -
  have s1: "splitClassNames ''p-1   text-lg'' = [''p-1'', ''text-lg'']" by code_simp
  have s2: "splitClassNames '' text-lg p-1'' = [''text-lg'', ''p-1'']" by code_simp
  have m: "mset (splitClassNames ''p-1   text-lg'') = mset (splitClassNames '' text-lg p-1'')"
    by (simp add: s1 s2)
  have a: "fst (tailwind exampleOps exampleStyles create ''p-1   text-lg'' None) = Inr (Some 13)"
    by code_simp
  then have "tailwind exampleOps exampleStyles create ''p-1   text-lg'' None
      = (Inr (Some 13), snd (tailwind exampleOps exampleStyles create ''p-1   text-lg'' None))"
    by (simp add: prod_eq_iff)
  from order_insensitive [OF m this] m a show ?thesis by simp
qed

section \<open>Variables\<close>



section \<open>Ordering and override\<close>

text \<open>
  Claim C5.  The ordered token list is the concatenation of the five buckets,
  each with its tokens of the form \<open>leading-*\<close> placed after its other tokens
  and both parts in the order the sorted bucket has them.  In every reachable
  state and for every table that has \<open>text-lg\<close> and \<open>leading-6\<close>, the call
  with \<open>text-lg leading-6\<close>, in either input order, returns the merge of the
  fragment of \<open>text-lg\<close> and then that of \<open>leading-6\<close> with variables
  resolved, so its \<open>lineHeight\<close> is the one of \<open>leading-6\<close>.
\<close>

theorem leading_last:
  assumes "reachable ops ts st"
    and "ts ''text-lg'' = Some textLg" and "ts ''leading-6'' = Some leading6"
    and "distinct (map fst leading6)" and "map_of leading6 ''lineHeight'' = Some v"
  shows "sortClassNames tokens =
       concat (map (\<lambda>tier. spec_leadingLast (spec_bucket tokens tier))
         [None, Some 0, Some 1, Some 2, Some 3])
    \<and> (\<exists>r st'. tailwind ops ts st ''text-lg leading-6'' w = (Inr (Some r), st')
          \<and> heap st' ! r = useVariables ops (assign (assign [] textLg) leading6)
          \<and> map_of (heap st' ! r) ''lineHeight''
              = Some (substituted ops (assign (assign [] textLg) leading6) v))
    \<and> (\<exists>r st'. tailwind ops ts st ''leading-6 text-lg'' w = (Inr (Some r), st')
          \<and> heap st' ! r = useVariables ops (assign (assign [] textLg) leading6)
          \<and> map_of (heap st' ! r) ''lineHeight''
              = Some (substituted ops (assign (assign [] textLg) leading6) v))"
proof -
  have k1: "cacheKey ''text-lg leading-6'' w = ''text-lg leading-6''" by code_simp
  have k2: "cacheKey ''leading-6 text-lg'' w = ''text-lg leading-6''" by code_simp
  have h1: "\<not> haveMaxWidthKeys ''text-lg leading-6''" by code_simp
  have h2: "\<not> haveMaxWidthKeys ''leading-6 text-lg''" by code_simp
  have m: "matchAll ''text-lg leading-6'' = []" by code_simp
  have e: "execLetterSpacing ''text-lg leading-6'' = None" by code_simp
  have s: "separateClassNames ''text-lg leading-6'' = [''text-lg'', ''leading-6'']" by code_simp
  have c: "computeStyle ops ts ''text-lg leading-6''
      = Inr (useVariables ops (assign (assign [] textLg) leading6), [])"
    by (rule two_tokens_computeStyle [OF m e s assms(2) assms(3)])
  have n: "\<not> startsWith ''lineHeight'' ''--''" by (simp add: startsWith_def)
  note p = two_tokens_property [OF assms(4) assms(5) n, of ops textLg]
  have i: "''text-lg leading-6'' \<notin> set inheritedNames" by (simp add: inheritedNames_def)
  have "\<exists>r st'. tailwind ops ts st ''text-lg leading-6'' w = (Inr (Some r), st')
      \<and> heap st' ! r = useVariables ops (assign (assign [] textLg) leading6)"
    by (rule tailwind_returns [OF assms(1)]) (simp_all add: k1 h1 c i)
  moreover have "\<exists>r st'. tailwind ops ts st ''leading-6 text-lg'' w = (Inr (Some r), st')
      \<and> heap st' ! r = useVariables ops (assign (assign [] textLg) leading6)"
    by (rule tailwind_returns [OF assms(1)]) (simp_all add: k2 h2 c i)
  ultimately show ?thesis using p sortClassNames_buckets [of tokens] by auto
qed

theorem leading_last_witness:
  "exampleStyles ''text-lg'' = Some [(''fontSize'', VNum ''18''), (''lineHeight'', VNum ''28'')]
   \<and> exampleStyles ''leading-6'' = Some [(''lineHeight'', VNum ''24'')]
   \<and> fst (tailwind exampleOps exampleStyles create ''text-lg leading-6'' None) = Inr (Some 13)
   \<and> map_of (heap (snd (tailwind exampleOps exampleStyles create ''text-lg leading-6'' None)) ! 13)
        ''lineHeight'' = Some (VNum ''24'')
   \<and> sortClassNames [''sm:leading-6'', ''text-lg'', ''leading-6'', ''sm:a'', ''b'']
       = [''b'', ''text-lg'', ''leading-6'', ''sm:a'', ''sm:leading-6'']"
proof -
  have t: "exampleStyles ''text-lg'' = Some [(''fontSize'', VNum ''18''), (''lineHeight'', VNum ''28'')]"
    by (simp add: exampleStyles_def)
  have l: "exampleStyles ''leading-6'' = Some [(''lineHeight'', VNum ''24'')]"
    by (simp add: exampleStyles_def)
  have d: "distinct (map fst [(''lineHeight'', VNum ''24''  :: string jsval)])" by simp
  have m: "map_of [(''lineHeight'', VNum ''24'' :: string jsval)] ''lineHeight'' = Some (VNum ''24'')"
    by simp
  have f: "fst (tailwind exampleOps exampleStyles create ''text-lg leading-6'' None) = Inr (Some 13)"
    by code_simp
  have s: "sortClassNames [''sm:leading-6'', ''text-lg'', ''leading-6'', ''sm:a'', ''b'']
       = [''b'', ''text-lg'', ''leading-6'', ''sm:a'', ''sm:leading-6'']"
    by code_simp
  from leading_last [OF reachable_create t l d m, where w = None, THEN conjunct2, THEN conjunct1]
  obtain r st' where r: "tailwind exampleOps exampleStyles create ''text-lg leading-6'' None = (Inr (Some r), st')"
    and v: "map_of (heap st' ! r) ''lineHeight''
      = Some (substituted exampleOps (assign (assign [] [(''fontSize'', VNum ''18''), (''lineHeight'', VNum ''28'')])
                [(''lineHeight'', VNum ''24'')]) (VNum ''24''))"
    by blast
  from r f have "r = 13" by simp
  with r v have "map_of (heap (snd (tailwind exampleOps exampleStyles create ''text-lg leading-6'' None)) ! 13)
        ''lineHeight'' = Some (VNum ''24'')"
    by (simp add: substituted_def)
  with t l f s show ?thesis by simp
qed


text \<open>
  A bare tag leaves an empty token when it is stripped, and the empty token is
  lost when the key is split again.
\<close>

lemma bare_tag_token:
  "finalClassNames ''p-1 sm:'' (Some 800) = [''p-1'', []]
   \<and> separateClassNames (cacheKey ''p-1 sm:'' (Some 800)) = [''p-1'']"
  by code_simp



section \<open>Font variants, letter spacing and errors\<close>

text \<open>
  Claim C6, where the code differs: the fragments are merged after the font
  variants are set, so a table whose fragment for a token has a property
  \<open>fontVariant\<close> gives that property to the result although none of the four
  keywords occurs.
\<close>

theorem font_variant_counterexample:
  "cacheKey ''small-caps'' None = ''small-caps''
   \<and> matchAll ''small-caps'' = []
   \<and> fst (tailwind exampleOps (exampleStyles(''small-caps'' \<mapsto> [(''fontVariant'', VArr [VStr ''small-caps''])]))
        create ''small-caps'' None) = Inr (Some 13)
   \<and> map_of (heap (snd (tailwind exampleOps
        (exampleStyles(''small-caps'' \<mapsto> [(''fontVariant'', VArr [VStr ''small-caps''])]))
        create ''small-caps'' None)) ! 13) ''fontVariant'' = Some (VArr [VStr ''small-caps''])"
  by code_simp

text \<open>
  Claim C6 as amended.  In every reachable state, when a call returns and no
  fragment that is merged for its key has a property \<open>fontVariant\<close>, the
  result has the property \<open>fontVariant\<close> exactly when a keyword occurs in the
  key, and its value is the list of the matches from left to right, duplicates
  kept; none of the four keywords is among the tokens that are looked up; and
  for every table the call with \<open>oldstyle-nums tabular-nums\<close> returns the
  object with the one property \<open>fontVariant\<close> of these two names.
\<close>

theorem font_variant:
  assumes "reachable ops ts st" and "tailwind ops ts st classNames w = (Inr (Some r), st')"
    and "\<forall>c\<in>set (separateClassNames (cacheKey classNames w)).
           \<forall>f. ts c = Some f \<longrightarrow> ''fontVariant'' \<notin> fst ` set f"
  shows "map_of (heap st' ! r) ''fontVariant''
       = (if matchAll (cacheKey classNames w) = [] then None
          else Some (VArr (map VStr (matchAll (cacheKey classNames w)))))
    \<and> (\<forall>c\<in>set (separateClassNames (cacheKey classNames w)). c \<notin> set fontVariantKeywords)
    \<and> (\<exists>r' st''. tailwind ops ts st ''oldstyle-nums tabular-nums'' w' = (Inr (Some r'), st'')
          \<and> heap st'' ! r' = [(''fontVariant'', VArr [VStr ''oldstyle-nums'', VStr ''tabular-nums''])])"
proof -
  have a: "map_of (heap st' ! r) ''fontVariant''
       = (if matchAll (cacheKey classNames w) = [] then None
          else Some (VArr (map VStr (matchAll (cacheKey classNames w)))))"
    using tailwind_result [OF assms(1) assms(2)]
  proof
    assume "(cacheKey classNames w = [] \<or> cacheKey classNames w \<in> set inheritedNames)
      \<and> heap st' ! r = []"
    then show ?thesis using inherited_no_match(1) [of "cacheKey classNames w"] by auto
  next
    assume "cacheKey classNames w \<noteq> []
      \<and> (\<exists>warned. computeStyle ops ts (cacheKey classNames w) = Inr (heap st' ! r, warned))"
    then obtain warned where "computeStyle ops ts (cacheKey classNames w) = Inr (heap st' ! r, warned)"
      by blast
    from computeStyle_fontVariant [OF this assms(3)] show ?thesis .
  qed
  have k: "cacheKey ''oldstyle-nums tabular-nums'' w' = ''oldstyle-nums tabular-nums''" by code_simp
  have h: "\<not> haveMaxWidthKeys ''oldstyle-nums tabular-nums''" by code_simp
  have m: "matchAll ''oldstyle-nums tabular-nums'' = [''oldstyle-nums'', ''tabular-nums'']" by code_simp
  have e: "execLetterSpacing ''oldstyle-nums tabular-nums'' = None" by code_simp
  have s: "separateClassNames ''oldstyle-nums tabular-nums'' = []" by code_simp
  have c: "computeStyle ops ts ''oldstyle-nums tabular-nums''
      = Inr ([(''fontVariant'', VArr [VStr ''oldstyle-nums'', VStr ''tabular-nums''])], [])"
    by (simp add: computeStyle_def mergedStyle_def addFontVariant_def addLetterSpacing_def m e s
          useVariables_def startsWith_def substituted_def
          del: matchAll.simps execLetterSpacing.simps)
  have i: "''oldstyle-nums tabular-nums'' \<notin> set inheritedNames" by (simp add: inheritedNames_def)
  have "\<exists>r' st''. tailwind ops ts st ''oldstyle-nums tabular-nums'' w' = (Inr (Some r'), st'')
          \<and> heap st'' ! r' = [(''fontVariant'', VArr [VStr ''oldstyle-nums'', VStr ''tabular-nums''])]"
    by (rule tailwind_returns [OF assms(1)]) (simp_all add: k h c i)
  with a separate_not_variant show ?thesis by blast
qed

theorem font_variant_witness:
  "separateClassNames (cacheKey ''tabular-nums  oldstyle-nums p-1 tabular-nums'' None) = [''p-1'']
   \<and> exampleStyles ''p-1'' = Some [(''padding'', VNum ''4'')]
   \<and> fst (tailwind exampleOps exampleStyles create ''tabular-nums  oldstyle-nums p-1 tabular-nums'' None) = Inr (Some 13)
   \<and> map_of (heap (snd (tailwind exampleOps exampleStyles create ''tabular-nums  oldstyle-nums p-1 tabular-nums'' None)) ! 13)
        ''fontVariant''
       = Some (VArr [VStr ''oldstyle-nums'', VStr ''tabular-nums'', VStr ''tabular-nums''])"
proof -
  have s: "separateClassNames (cacheKey ''tabular-nums  oldstyle-nums p-1 tabular-nums'' None) = [''p-1'']" by code_simp
  have p: "exampleStyles ''p-1'' = Some [(''padding'', VNum ''4'')]" by (simp add: exampleStyles_def)
  have f: "fst (tailwind exampleOps exampleStyles create ''tabular-nums  oldstyle-nums p-1 tabular-nums'' None) = Inr (Some 13)"
    by code_simp
  then have t: "tailwind exampleOps exampleStyles create ''tabular-nums  oldstyle-nums p-1 tabular-nums'' None
      = (Inr (Some 13), snd (tailwind exampleOps exampleStyles create ''tabular-nums  oldstyle-nums p-1 tabular-nums'' None))"
    by (simp add: prod_eq_iff)
  have h: "\<forall>c\<in>set (separateClassNames (cacheKey ''tabular-nums  oldstyle-nums p-1 tabular-nums'' None)).
      \<forall>f. exampleStyles c = Some f \<longrightarrow> ''fontVariant'' \<notin> fst ` set f"
    unfolding s using p by auto
  have m: "matchAll (cacheKey ''tabular-nums  oldstyle-nums p-1 tabular-nums'' None) = [''oldstyle-nums'', ''tabular-nums'', ''tabular-nums'']"
    by code_simp
  from font_variant [OF reachable_create t h, THEN conjunct1] m s p f show ?thesis by simp
qed

text \<open>
  Claim C4, where the code differs: the token \<open>tracking-1\<close> starts with
  \<open>tracking-\<close> and no font size is present, yet no error is raised; the regular
  expression asks for lower-case letters after the hyphen.  The token is left
  out of the lookup, and the result is the empty object without a warning.
\<close>

theorem letter_spacing_counterexample:
  "splitClassNames ''tracking-1'' = [''tracking-1'']
   \<and> cacheKey ''tracking-1'' None = ''tracking-1''
   \<and> startsWith ''tracking-1'' ''tracking-''
   \<and> execFontSize ''tracking-1'' = None
   \<and> fst (tailwind exampleOps exampleStyles create ''tracking-1'' None) = Inr (Some 13)
   \<and> heap (snd (tailwind exampleOps exampleStyles create ''tracking-1'' None)) ! 13 = []
   \<and> warnings (snd (tailwind exampleOps exampleStyles create ''tracking-1'' None)) = []"
  by code_simp

text \<open>
  When two font sizes occur in the key, the letter spacing is computed from the
  one that the regular expression finds first, and the merge leaves the font
  size of the one that is merged last: for \<open>text-sm sm:text-lg tracking-wide\<close>
  at the width 800 the letter spacing is computed from 14 and the font size is
  18.
\<close>

lemma two_font_sizes:
  "cacheKey ''text-sm sm:text-lg tracking-wide'' (Some 800) = ''text-sm tracking-wide text-lg''
   \<and> fst (tailwind exampleOps exampleStyles create ''text-sm sm:text-lg tracking-wide'' (Some 800))
       = Inr (Some 13)
   \<and> map_of (heap (snd (tailwind exampleOps exampleStyles create
          ''text-sm sm:text-lg tracking-wide'' (Some 800))) ! 13) ''letterSpacing''
       = Some (VNum ''parseFloat(0.025em) * 14'')
   \<and> map_of (heap (snd (tailwind exampleOps exampleStyles create
          ''text-sm sm:text-lg tracking-wide'' (Some 800))) ! 13) ''fontSize''
       = Some (VNum ''18'')"
  by code_simp

text \<open>
  Claim C4 as amended.  In every reachable state, for a call that passes the
  width check and whose key has a match \<open>m\<close> of \<open>tracking-\<close> followed by
  lower-case letters: \<open>m\<close> occurs in the key; no font size matches exactly when
  none of \<open>text-xs\<close> to \<open>text-6xl\<close> occurs in the key, and then the call
  raises the missing font size error and changes nothing; when a font size
  \<open>f\<close> matches, it is one of \<open>text-xs\<close> to \<open>text-6xl\<close> and occurs in the
  key; when moreover \<open>f\<close> is the only one of them that occurs in the key,
  \<open>m\<close> is the only token of the key that starts with \<open>tracking-\<close>, the table
  has \<open>m\<close> and \<open>f\<close>, and no merged fragment sets \<open>letterSpacing\<close>, the
  call returns and the \<open>letterSpacing\<close> of the result is the product of
  \<open>parseFloat\<close> of the \<open>letterSpacing\<close> of \<open>m\<close> and the \<open>fontSize\<close> of
  \<open>f\<close>; no token that starts with \<open>tracking-\<close> is looked up.  Nothing is
  stated of the letter spacing when several font sizes or several tokens that
  start with \<open>tracking-\<close> occur.
\<close>

theorem letter_spacing:
  assumes "reachable ops ts st" and "\<not> (haveMaxWidthKeys classNames \<and> \<not> truthy w)"
    and "execLetterSpacing (cacheKey classNames w) = Some m"
  shows "(\<exists>letters. m = ''tracking-'' @ letters \<and> letters \<noteq> [] \<and> list_all isLower letters)
    \<and> includes_str (cacheKey classNames w) m
    \<and> (execFontSize (cacheKey classNames w) = None
        \<longleftrightarrow> (\<forall>size\<in>set fontSizes. \<not> includes_str (cacheKey classNames w) (''text-'' @ size)))
    \<and> (execFontSize (cacheKey classNames w) = None
        \<longrightarrow> tailwind ops ts st classNames w = (Inl FontSizeRequired, st))
    \<and> (execFontSize (cacheKey classNames w) = Some f
        \<longrightarrow> (\<exists>size\<in>set fontSizes. f = ''text-'' @ size) \<and> includes_str (cacheKey classNames w) f)
    \<and> (execFontSize (cacheKey classNames w) = Some f
         \<and> (\<forall>size\<in>set fontSizes.
               includes_str (cacheKey classNames w) (''text-'' @ size) \<longrightarrow> ''text-'' @ size = f)
         \<and> (\<forall>t\<in>set (splitClassNames (cacheKey classNames w)). startsWith t ''tracking-'' \<longrightarrow> t = m)
         \<and> ts m = Some lf \<and> ts f = Some ff
         \<and> (\<forall>c\<in>set (separateClassNames (cacheKey classNames w)).
               \<forall>g. ts c = Some g \<longrightarrow> ''letterSpacing'' \<notin> fst ` set g)
        \<longrightarrow> (\<exists>r st'. tailwind ops ts st classNames w = (Inr (Some r), st')
               \<and> map_of (heap st' ! r) ''letterSpacing''
                  = Some (VNum (multiply ops (parseFloat ops (getProp lf ''letterSpacing''))
                                  (getProp ff ''fontSize'')))))
    \<and> (\<forall>c\<in>set (separateClassNames (cacheKey classNames w)). \<not> startsWith c ''tracking-'')"
proof -
  from assms(3) have ne: "cacheKey classNames w \<noteq> []" by auto
  from assms(3) inherited_no_match(2) [of "cacheKey classNames w"]
  have ni: "cacheKey classNames w \<notin> set inheritedNames" by auto
  have a: "execFontSize (cacheKey classNames w) = None
        \<longrightarrow> tailwind ops ts st classNames w = (Inl FontSizeRequired, st)"
  proof
    assume "execFontSize (cacheKey classNames w) = None"
    with assms(3) have "computeStyle ops ts (cacheKey classNames w) = Inl FontSizeRequired"
      by (simp add: computeStyle_FontSizeRequired)
    from tailwind_throws [OF assms(1) assms(2) ne ni this]
    show "tailwind ops ts st classNames w = (Inl FontSizeRequired, st)" .
  qed
  have b: "execFontSize (cacheKey classNames w) = Some f
         \<and> (\<forall>size\<in>set fontSizes.
               includes_str (cacheKey classNames w) (''text-'' @ size) \<longrightarrow> ''text-'' @ size = f)
         \<and> (\<forall>t\<in>set (splitClassNames (cacheKey classNames w)). startsWith t ''tracking-'' \<longrightarrow> t = m)
         \<and> ts m = Some lf \<and> ts f = Some ff
         \<and> (\<forall>c\<in>set (separateClassNames (cacheKey classNames w)).
               \<forall>g. ts c = Some g \<longrightarrow> ''letterSpacing'' \<notin> fst ` set g)
        \<longrightarrow> (\<exists>r st'. tailwind ops ts st classNames w = (Inr (Some r), st')
               \<and> map_of (heap st' ! r) ''letterSpacing''
                  = Some (VNum (multiply ops (parseFloat ops (getProp lf ''letterSpacing''))
                                  (getProp ff ''fontSize''))))"
  proof
    assume h: "execFontSize (cacheKey classNames w) = Some f
         \<and> (\<forall>size\<in>set fontSizes.
               includes_str (cacheKey classNames w) (''text-'' @ size) \<longrightarrow> ''text-'' @ size = f)
         \<and> (\<forall>t\<in>set (splitClassNames (cacheKey classNames w)). startsWith t ''tracking-'' \<longrightarrow> t = m)
         \<and> ts m = Some lf \<and> ts f = Some ff
         \<and> (\<forall>c\<in>set (separateClassNames (cacheKey classNames w)).
               \<forall>g. ts c = Some g \<longrightarrow> ''letterSpacing'' \<notin> fst ` set g)"
    then obtain obj warned where c: "computeStyle ops ts (cacheKey classNames w) = Inr (obj, warned)"
      and l: "map_of obj ''letterSpacing''
        = Some (VNum (multiply ops (parseFloat ops (getProp lf ''letterSpacing'')) (getProp ff ''fontSize'')))"
      using computeStyle_letterSpacing [OF assms(3), of f ts lf ff ops] by blast
    from tailwind_returns [OF assms(1) assms(2) ne ni c] l
    show "\<exists>r st'. tailwind ops ts st classNames w = (Inr (Some r), st')
               \<and> map_of (heap st' ! r) ''letterSpacing''
                  = Some (VNum (multiply ops (parseFloat ops (getProp lf ''letterSpacing''))
                                  (getProp ff ''fontSize'')))"
      by auto
  qed
  have c: "execFontSize (cacheKey classNames w) = Some f
        \<longrightarrow> (\<exists>size\<in>set fontSizes. f = ''text-'' @ size) \<and> includes_str (cacheKey classNames w) f"
    using execFontSize_Some [of "cacheKey classNames w" f] by blast
  from execLetterSpacing_Some [OF assms(3)]
  have d: "(\<exists>letters. m = ''tracking-'' @ letters \<and> letters \<noteq> [] \<and> list_all isLower letters)"
    and e: "includes_str (cacheKey classNames w) m" by blast+
  from d e execFontSize_None_iff [of "cacheKey classNames w"] a c b
    separate_not_tracking [of "cacheKey classNames w"]
  show ?thesis by (intro conjI)
qed

theorem letter_spacing_witness:
  "\<not> haveMaxWidthKeys ''text-lg tracking-tighter''
   \<and> execLetterSpacing (cacheKey ''text-lg tracking-tighter'' None) = Some ''tracking-tighter''
   \<and> execFontSize (cacheKey ''text-lg tracking-tighter'' None) = Some ''text-lg''
   \<and> list_all (\<lambda>size. \<not> includes_str (cacheKey ''text-lg tracking-tighter'' None) (''text-'' @ size)
          \<or> ''text-'' @ size = ''text-lg'') fontSizes
   \<and> splitClassNames (cacheKey ''text-lg tracking-tighter'' None) = [''text-lg'', ''tracking-tighter'']
   \<and> exampleStyles ''tracking-tighter'' = Some [(''letterSpacing'', VStr ''-0.05em'')]
   \<and> exampleStyles ''text-lg'' = Some [(''fontSize'', VNum ''18''), (''lineHeight'', VNum ''28'')]
   \<and> fst (tailwind exampleOps exampleStyles create ''text-lg tracking-tighter'' None) = Inr (Some 13)
   \<and> map_of (heap (snd (tailwind exampleOps exampleStyles create ''text-lg tracking-tighter'' None)) ! 13)
        ''letterSpacing'' = Some (VNum ''parseFloat(-0.05em) * 18'')"
proof -
  let ?lf = "[(''letterSpacing'', VStr ''-0.05em'')] :: string object"
  let ?ff = "[(''fontSize'', VNum ''18''), (''lineHeight'', VNum ''28'')] :: string object"
  have g: "\<not> haveMaxWidthKeys ''text-lg tracking-tighter''" by code_simp
  then have g': "\<not> (haveMaxWidthKeys ''text-lg tracking-tighter'' \<and> \<not> truthy None)" by simp
  have e: "execLetterSpacing (cacheKey ''text-lg tracking-tighter'' None) = Some ''tracking-tighter''" by code_simp
  have z: "execFontSize (cacheKey ''text-lg tracking-tighter'' None) = Some ''text-lg''" by code_simp
  have u: "list_all (\<lambda>size. \<not> includes_str (cacheKey ''text-lg tracking-tighter'' None) (''text-'' @ size)
          \<or> ''text-'' @ size = ''text-lg'') fontSizes"
    by code_simp
  then have u': "\<forall>size\<in>set fontSizes.
      includes_str (cacheKey ''text-lg tracking-tighter'' None) (''text-'' @ size) \<longrightarrow> ''text-'' @ size = ''text-lg''"
    unfolding list_all_iff by blast
  have sp: "splitClassNames (cacheKey ''text-lg tracking-tighter'' None) = [''text-lg'', ''tracking-tighter'']"
    by code_simp
  have n: "\<forall>t\<in>set (splitClassNames (cacheKey ''text-lg tracking-tighter'' None)).
      startsWith t ''tracking-'' \<longrightarrow> t = ''tracking-tighter''"
    unfolding sp by (simp add: startsWith_def)
  have l: "exampleStyles ''tracking-tighter'' = Some ?lf" by (simp add: exampleStyles_def)
  have t: "exampleStyles ''text-lg'' = Some ?ff" by (simp add: exampleStyles_def)
  have s: "separateClassNames (cacheKey ''text-lg tracking-tighter'' None) = [''text-lg'']" by code_simp
  have h: "\<forall>c\<in>set (separateClassNames (cacheKey ''text-lg tracking-tighter'' None)).
      \<forall>g. exampleStyles c = Some g \<longrightarrow> ''letterSpacing'' \<notin> fst ` set g"
    unfolding s using t by auto
  have f: "fst (tailwind exampleOps exampleStyles create ''text-lg tracking-tighter'' None) = Inr (Some 13)"
    by code_simp
  have v: "VNum (multiply exampleOps (parseFloat exampleOps (getProp ?lf ''letterSpacing''))
      (getProp ?ff ''fontSize'')) = VNum ''parseFloat(-0.05em) * 18''"
    by code_simp
  from letter_spacing [OF reachable_create g' e, where f = "''text-lg''" and lf = ?lf and ff = ?ff]
    z u' n l t h
  obtain r st' where r: "tailwind exampleOps exampleStyles create ''text-lg tracking-tighter'' None = (Inr (Some r), st')"
    and w: "map_of (heap st' ! r) ''letterSpacing''
      = Some (VNum (multiply exampleOps (parseFloat exampleOps (getProp ?lf ''letterSpacing''))
          (getProp ?ff ''fontSize'')))"
    by blast
  from r f have "r = 13" by simp
  with r w v have "map_of (heap (snd (tailwind exampleOps exampleStyles create ''text-lg tracking-tighter'' None)) ! 13)
        ''letterSpacing'' = Some (VNum ''parseFloat(-0.05em) * 18'')"
    by simp
  with g e z u sp l t f show ?thesis by simp
qed

text \<open>
  Claim C3, where the code differs: the token \<open>2xl:p-1\<close> carries none of the
  four tags, its first three code units being \<open>2xl\<close>, and no width is given;
  the call raises the missing width error, because the string contains \<open>xl:\<close>.
\<close>

theorem error_kinds_counterexample:
  "splitClassNames ''2xl:p-1'' = [''2xl:p-1'']
   \<and> spec_tierIndex ''2xl:p-1'' = None
   \<and> fst (tailwind exampleOps exampleStyles create ''2xl:p-1'' None) = Inl WithoutWindowWidth"
  by code_simp

text \<open>
  The class \<open>tracking-foo\<close> is not in the example table; with a font size
  present, line 57 destructures \<open>undefined\<close> and the call raises a
  \<open>TypeError\<close>, where the loop of lines 157 to 163 would warn.
\<close>

lemma unknown_tracking_class_throws:
  "exampleStyles ''tracking-foo'' = None
   \<and> fst (tailwind exampleOps exampleStyles create ''text-lg tracking-foo'' None) = Inl TypeError"
  by code_simp

text \<open>
  The names that an object inherits are found by the lookups: the call with
  \<open>toString\<close> is a hit on the inherited member of the cache, which computes
  and warns nothing, and in \<open>constructor nope\<close> the token \<open>constructor\<close> is
  found in the table, so the one warning is for \<open>nope\<close>.
\<close>

lemma inherited_names_found:
  "fst (tailwind exampleOps exampleStyles create ''toString'' None) = Inr (Some 9)
   \<and> length (heap (snd (tailwind exampleOps exampleStyles create ''toString'' None))) = 13
   \<and> warnings (snd (tailwind exampleOps exampleStyles create ''toString'' None)) = []
   \<and> fst (tailwind exampleOps exampleStyles create ''constructor nope'' None) = Inr (Some 13)
   \<and> heap (snd (tailwind exampleOps exampleStyles create ''constructor nope'' None)) ! 13 = []
   \<and> warnings (snd (tailwind exampleOps exampleStyles create ''constructor nope'' None))
       = [warning ''nope'' ''constructor nope'']"
  by code_simp

text \<open>
  Claim C3 as amended.  In every reachable state: a call raises the missing
  width error exactly when one of the four tags occurs in the input string,
  which is when it occurs anywhere in one of its tokens, and the width is null
  or zero; it raises the missing font size error exactly when it passes the
  width check and its key contains \<open>tracking-\<close> followed by a lower-case letter
  and contains none of \<open>text-xs\<close> to \<open>text-6xl\<close>; and a call that passes the
  width check and whose key either has no such \<open>tracking-\<close> match or has both
  matched classes in the table returns a result.  When the key is empty, is in
  the cache or is an inherited name, the list of warnings is unchanged;
  otherwise it is extended by exactly one warning for each token that is looked
  up and that the lookup in the table does not find, in the order of the
  lookups.  The object returned for a key that is neither empty nor an
  inherited name is the one that results from merging only the tokens that the
  lookup finds: a token that it does not find adds nothing.
\<close>

theorem error_kinds:
  assumes "reachable ops ts st"
  shows "(fst (tailwind ops ts st classNames w) = Inl WithoutWindowWidth
        \<longleftrightarrow> haveMaxWidthKeys classNames \<and> \<not> truthy w)
    \<and> (haveMaxWidthKeys classNames
        \<longleftrightarrow> (\<exists>k\<in>set maxWidthKeys. \<exists>t\<in>set (splitClassNames classNames). includes_str t k))
    \<and> (fst (tailwind ops ts st classNames w) = Inl FontSizeRequired
        \<longleftrightarrow> \<not> (haveMaxWidthKeys classNames \<and> \<not> truthy w)
            \<and> execLetterSpacing (cacheKey classNames w) \<noteq> None
            \<and> execFontSize (cacheKey classNames w) = None)
    \<and> (execLetterSpacing (cacheKey classNames w) \<noteq> None
        \<longleftrightarrow> (\<exists>l. isLower l \<and> includes_str (cacheKey classNames w) (''tracking-'' @ [l])))
    \<and> (execFontSize (cacheKey classNames w) = None
        \<longleftrightarrow> (\<forall>size\<in>set fontSizes. \<not> includes_str (cacheKey classNames w) (''text-'' @ size)))
    \<and> (\<not> (haveMaxWidthKeys classNames \<and> \<not> truthy w)
         \<and> (execLetterSpacing (cacheKey classNames w) = None
              \<or> (\<exists>m f. execLetterSpacing (cacheKey classNames w) = Some m
                    \<and> execFontSize (cacheKey classNames w) = Some f \<and> ts m \<noteq> None \<and> ts f \<noteq> None))
        \<longrightarrow> (\<exists>r st'. tailwind ops ts st classNames w = (Inr (Some r), st')
               \<and> warnings st' = warnings st
                    @ (if cacheKey classNames w = [] \<or> cache st (cacheKey classNames w) \<noteq> None
                          \<or> cacheKey classNames w \<in> set inheritedNames
                       then []
                       else map (\<lambda>c. warning c (cacheKey classNames w))
                              (filter (\<lambda>c. lookupClass ts c = None)
                                 (separateClassNames (cacheKey classNames w))))))
    \<and> (tailwind ops ts st classNames w = (Inr (Some r), st')
         \<and> cacheKey classNames w \<noteq> [] \<and> cacheKey classNames w \<notin> set inheritedNames
        \<longrightarrow> (\<exists>seed. addLetterSpacing ops ts (addFontVariant [] (cacheKey classNames w))
                        (cacheKey classNames w) = Inr seed
               \<and> heap st' ! r = useVariables ops
                    (fst (mergeLoop ts (cacheKey classNames w)
                       (filter (\<lambda>c. lookupClass ts c \<noteq> None) (separateClassNames (cacheKey classNames w)))
                       (seed, [])))))"
proof -
  let ?key = "cacheKey classNames w"
  let ?guard = "haveMaxWidthKeys classNames \<and> \<not> truthy w"
  have a: "fst (tailwind ops ts st classNames w) = Inl WithoutWindowWidth \<longleftrightarrow> ?guard"
    unfolding tailwind_unguarded
    by (auto simp: Let_def computeStyle_errors split: sum.splits prod.splits)
  have b: "fst (tailwind ops ts st classNames w) = Inl FontSizeRequired
        \<longleftrightarrow> \<not> ?guard \<and> execLetterSpacing ?key \<noteq> None \<and> execFontSize ?key = None"
  proof (cases ?guard)
    case True
    then show ?thesis unfolding tailwind_unguarded by auto
  next
    case False
    show ?thesis
    proof (cases "?key = [] \<or> ?key \<in> set inheritedNames")
      case True
      then have "execLetterSpacing ?key = None" using inherited_no_match(2) [of ?key] by auto
      moreover from True False have "fst (tailwind ops ts st classNames w) \<noteq> Inl FontSizeRequired"
        unfolding tailwind_unguarded by (auto simp: Let_def)
      ultimately show ?thesis by simp
    next
      case n: False
      then have ne: "?key \<noteq> []" and ni: "?key \<notin> set inheritedNames" by simp_all
      show ?thesis
      proof (cases "computeStyle ops ts ?key")
        case (Inl e)
        from Inl have "e = FontSizeRequired
            \<longleftrightarrow> execLetterSpacing ?key \<noteq> None \<and> execFontSize ?key = None"
          using computeStyle_FontSizeRequired [of ops ts ?key] by simp
        with tailwind_throws [OF assms False ne ni Inl] False show ?thesis by simp
      next
        case (Inr p)
        obtain obj warned where p: "p = (obj, warned)" by (cases p)
        from Inr have "\<not> (execLetterSpacing ?key \<noteq> None \<and> execFontSize ?key = None)"
          using computeStyle_FontSizeRequired [of ops ts ?key] by simp
        moreover from tailwind_returns [OF assms False ne ni Inr [unfolded p]]
        have "fst (tailwind ops ts st classNames w) \<noteq> Inl FontSizeRequired" by auto
        ultimately show ?thesis by blast
      qed
    qed
  qed
  have c: "\<not> ?guard
         \<and> (execLetterSpacing ?key = None
              \<or> (\<exists>m f. execLetterSpacing ?key = Some m
                    \<and> execFontSize ?key = Some f \<and> ts m \<noteq> None \<and> ts f \<noteq> None))
        \<longrightarrow> (\<exists>r st'. tailwind ops ts st classNames w = (Inr (Some r), st')
               \<and> warnings st' = warnings st
                    @ (if ?key = [] \<or> cache st ?key \<noteq> None \<or> ?key \<in> set inheritedNames
                       then []
                       else map (\<lambda>c. warning c ?key)
                              (filter (\<lambda>c. lookupClass ts c = None) (separateClassNames ?key))))"
  proof
    assume h: "\<not> ?guard
         \<and> (execLetterSpacing ?key = None
              \<or> (\<exists>m f. execLetterSpacing ?key = Some m
                    \<and> execFontSize ?key = Some f \<and> ts m \<noteq> None \<and> ts f \<noteq> None))"
    then obtain obj where o: "computeStyle ops ts ?key
        = Inr (obj, map (\<lambda>c. warning c ?key) (filter (\<lambda>c. lookupClass ts c = None) (separateClassNames ?key)))"
      using computeStyle_returns [of ?key ts ops] by blast
    from h have g: "\<not> ?guard" by simp
    from tailwind_warnings [OF assms g o]
    show "\<exists>r st'. tailwind ops ts st classNames w = (Inr (Some r), st')
               \<and> warnings st' = warnings st
                    @ (if ?key = [] \<or> cache st ?key \<noteq> None \<or> ?key \<in> set inheritedNames
                       then []
                       else map (\<lambda>c. warning c ?key)
                              (filter (\<lambda>c. lookupClass ts c = None) (separateClassNames ?key)))" .
  qed
  have d: "execLetterSpacing ?key \<noteq> None
        \<longleftrightarrow> (\<exists>l. isLower l \<and> includes_str ?key (''tracking-'' @ [l]))"
    by (simp add: execLetterSpacing_None_iff)
  have e: "tailwind ops ts st classNames w = (Inr (Some r), st')
         \<and> ?key \<noteq> [] \<and> ?key \<notin> set inheritedNames
        \<longrightarrow> (\<exists>seed. addLetterSpacing ops ts (addFontVariant [] ?key) ?key = Inr seed
               \<and> heap st' ! r = useVariables ops
                    (fst (mergeLoop ts ?key
                       (filter (\<lambda>c. lookupClass ts c \<noteq> None) (separateClassNames ?key))
                       (seed, []))))"
  proof
    assume h: "tailwind ops ts st classNames w = (Inr (Some r), st')
         \<and> ?key \<noteq> [] \<and> ?key \<notin> set inheritedNames"
    then obtain merged warned where ms: "mergedStyle ops ts ?key = Inr (merged, warned)"
      and o: "heap st' ! r = useVariables ops merged"
      using tailwind_merged [OF assms, of classNames w r st'] by blast
    from ms obtain seed where s: "addLetterSpacing ops ts (addFontVariant [] ?key) ?key = Inr seed"
      and l: "mergeLoop ts ?key (separateClassNames ?key) (seed, []) = (merged, warned)"
      by (auto simp: mergedStyle_Inr)
    from l have "merged = fst (mergeLoop ts ?key (separateClassNames ?key) (seed, []))" by simp
    also have "\<dots> = fst (mergeLoop ts ?key
        (filter (\<lambda>c. lookupClass ts c \<noteq> None) (separateClassNames ?key)) (seed, []))"
      by (rule mergeLoop_supported)
    finally show "\<exists>seed. addLetterSpacing ops ts (addFontVariant [] ?key) ?key = Inr seed
               \<and> heap st' ! r = useVariables ops
                    (fst (mergeLoop ts ?key
                       (filter (\<lambda>c. lookupClass ts c \<noteq> None) (separateClassNames ?key))
                       (seed, [])))"
      using s o by blast
  qed
  from a haveMaxWidthKeys_tokens [of classNames] b d execFontSize_None_iff [of ?key] c e
  show ?thesis by (intro conjI)
qed

theorem error_kinds_witness:
  "\<not> haveMaxWidthKeys ''text-lg  nope''
   \<and> execLetterSpacing (cacheKey ''text-lg  nope'' None) = None
   \<and> cacheKey ''text-lg  nope'' None = ''nope text-lg''
   \<and> filter (\<lambda>c. lookupClass exampleStyles c = None) (separateClassNames ''nope text-lg'') = [''nope'']
   \<and> fst (tailwind exampleOps exampleStyles create ''text-lg  nope'' None) = Inr (Some 13)
   \<and> warnings (snd (tailwind exampleOps exampleStyles create ''text-lg  nope'' None))
       = [warning ''nope'' ''nope text-lg'']"
proof -
  have g: "\<not> haveMaxWidthKeys ''text-lg  nope''" by code_simp
  have e: "execLetterSpacing (cacheKey ''text-lg  nope'' None) = None" by code_simp
  have k: "cacheKey ''text-lg  nope'' None = ''nope text-lg''" by code_simp
  have u: "filter (\<lambda>c. lookupClass exampleStyles c = None) (separateClassNames ''nope text-lg'') = [''nope'']"
    by code_simp
  have m: "cache (create :: string state) ''nope text-lg'' = None" by (simp add: create_def)
  have i: "''nope text-lg'' \<notin> set inheritedNames" by (simp add: inheritedNames_def)
  have f: "fst (tailwind exampleOps exampleStyles create ''text-lg  nope'' None) = Inr (Some 13)"
    by code_simp
  from error_kinds [OF reachable_create, where classNames = "''text-lg  nope''" and w = None
      and ops = exampleOps and ts = exampleStyles] g e
  obtain r st' where r: "tailwind exampleOps exampleStyles create ''text-lg  nope'' None = (Inr (Some r), st')"
    and w: "warnings st' = warnings (create :: string state)
        @ (if cacheKey ''text-lg  nope'' None = [] \<or> cache (create :: string state) (cacheKey ''text-lg  nope'' None) \<noteq> None
              \<or> cacheKey ''text-lg  nope'' None \<in> set inheritedNames
           then []
           else map (\<lambda>c. warning c (cacheKey ''text-lg  nope'' None))
                  (filter (\<lambda>c. lookupClass exampleStyles c = None)
                     (separateClassNames (cacheKey ''text-lg  nope'' None))))"
    by blast
  from w have "warnings st' = [warning ''nope'' ''nope text-lg'']"
    unfolding k using m i u by (simp add: create_def)
  with r have "warnings (snd (tailwind exampleOps exampleStyles create ''text-lg  nope'' None))
       = [warning ''nope'' ''nope text-lg'']"
    by simp
  with g e k u f show ?thesis by simp
qed

end
